theory Spec2Isabelle
  imports Main "HOL-Library.Word" "HOL-Library.AList"
begin

section \<open>The LawBridge reference parser (lawbridge\_reference.py)\<close>

text \<open>
  A shallow embedding of \<^verbatim>\<open>src/backup/lawbridge_reference.py\<close>. Python integers are
  \<open>int\<close>, a byte is an \<open>8 word\<close>, a character of the document is its code point, the
  \<open>time_index\<close> dictionary is an association list in insertion order, and every
  \<^verbatim>\<open>raise\<close> (also a failing \<^verbatim>\<open>assert\<close>, list index or dictionary lookup) is a value.
  Names are the source's, without the leading underscore; \<^verbatim>\<open>Document.length\<close> and
  \<^verbatim>\<open>Document.text\<close> are \<open>doc_length\<close> and \<open>doc_text\<close>, the parser's handlers \<^verbatim>\<open>_on_page\<close>,
  \<^verbatim>\<open>_on_line\<close>, \<^verbatim>\<open>_on_format\<close>, \<^verbatim>\<open>_on_timecode\<close>, \<^verbatim>\<open>_on_delete\<close> and \<^verbatim>\<open>_on_prevent_save\<close>
  carry the prefix \<open>parser_\<close> to tell them from the document's methods, and
  \<^verbatim>\<open>LawBridgeParser.__init__\<close> is \<open>init\<close>.
\<close>

subsection \<open>Constants, enums and errors\<close>

type_synonym byte = "8 word"

type_synonym codepoint = nat

definition STX :: byte where
  "STX = 0x02"

definition ETX :: byte where
  "ETX = 0x03"

text \<open>\<^verbatim>\<open>CMD_LEN\<close>, keyed by the command letter; \<open>None\<close> is \<^verbatim>\<open>cmd not in CMD_LEN\<close>.\<close>

definition CMD_LEN :: "byte \<Rightarrow> nat option" where
  "CMD_LEN c =
     (if c = 0x50 then Some 2
      else if c = 0x4E then Some 1
      else if c = 0x46 then Some 1
      else if c = 0x54 then Some 4
      else if c = 0x52 then Some 8
      else if c = 0x45 then Some 0
      else if c = 0x44 then Some 0
      else if c = 0x4B then Some 0
      else None)"

datatype ParserState = NORMAL | REFRESH

datatype RefreshMode = BUFFER | STREAM

text \<open>
  The exceptions of the module: the three \<^verbatim>\<open>ValueError\<close>s it raises itself (a frame with
  no ETX, a timecode that is not 4 bytes, an R payload that is not 8 bytes), the
  \<^verbatim>\<open>RuntimeError\<close> of a nested refresh, the ones Python raises for it, and the two
  \<^verbatim>\<open>ValueError\<close>s of the frame builder.
\<close>

datatype error =
    MalformedFrame byte
  | BadTimecode
  | BadRefreshPayload
  | NestedRefresh
  | AssertionError
  | IndexError
  | KeyError
  | UnknownCommand
  | BadPayloadLength

subsection \<open>Timecode\<close>

record Timecode =
  hh :: int
  mm :: int
  ss :: int
  ff :: int

definition to_frames :: "Timecode \<Rightarrow> int" where
  "to_frames tc = ((hh tc * 60 + mm tc) * 60 + ss tc) * 30 + ff tc"

definition from_bytes :: "byte list \<Rightarrow> error + Timecode" where
  "from_bytes b =
     (if length b \<noteq> 4 then Inl BadTimecode
      else Inr \<lparr>hh = uint (b ! 0), mm = uint (b ! 1), ss = uint (b ! 2), ff = uint (b ! 3)\<rparr>)"

subsection \<open>Python lists and dictionaries\<close>

text \<open>
  \<^verbatim>\<open>list.insert(i, x)\<close>: a negative index counts from the end, and an index out of range
  is clamped to the nearest end.
\<close>

definition list_insert :: "'a list \<Rightarrow> int \<Rightarrow> 'a \<Rightarrow> 'a list" where
  "list_insert xs i x =
     (let n = int (length xs);
          j = (if i < 0 then max 0 (i + n) else min i n)
      in take (nat j) xs @ x # drop (nat j) xs)"

text \<open>\<^verbatim>\<open>del xs[i]\<close>: a negative index counts from the end; out of range raises.\<close>

definition list_del :: "'a list \<Rightarrow> int \<Rightarrow> error + 'a list" where
  "list_del xs i =
     (let n = int (length xs);
          j = (if i < 0 then i + n else i)
      in if 0 \<le> j \<and> j < n then Inr (take (nat j) xs @ drop (Suc (nat j)) xs)
         else Inl IndexError)"

text \<open>\<^verbatim>\<open>d[k]\<close> on a dictionary: a missing key raises.\<close>

definition dict_get :: "(int \<times> int) list \<Rightarrow> int \<Rightarrow> error + int" where
  "dict_get d k = (case map_of d k of None \<Rightarrow> Inl KeyError | Some v \<Rightarrow> Inr v)"

text \<open>\<^verbatim>\<open>int.from_bytes(b, byteorder='little', signed=False)\<close>.\<close>

fun int_from_bytes_le :: "byte list \<Rightarrow> int" where
  "int_from_bytes_le [] = 0"
| "int_from_bytes_le (b # bs) = uint b + 256 * int_from_bytes_le bs"

subsection \<open>Document\<close>

record Document =
  chars :: "codepoint list"
  insertion :: int
  time_index :: "(int \<times> int) list"
  current_page :: "int option"
  current_line :: "int option"
  current_format :: "int option"
  prevent_save :: bool

definition new_Document :: Document where
  "new_Document =
     \<lparr>chars = [], insertion = 0, time_index = [], current_page = None,
      current_line = None, current_format = None, prevent_save = False\<rparr>"

definition set_insertion :: "Document \<Rightarrow> int \<Rightarrow> Document" where
  "set_insertion d pos = d\<lparr>insertion := max 0 (min pos (int (length (chars d))))\<rparr>"

definition get_insertion :: "Document \<Rightarrow> int" where
  "get_insertion d = insertion d"

text \<open>The loop of \<^verbatim>\<open>insert_text\<close>: \<^verbatim>\<open>for ch in s: self._chars.insert(pos, ch); pos += 1\<close>.\<close>

fun insert_loop :: "codepoint list \<Rightarrow> int \<Rightarrow> codepoint list \<Rightarrow> codepoint list \<times> int" where
  "insert_loop cs pos [] = (cs, pos)"
| "insert_loop cs pos (ch # s) = insert_loop (list_insert cs pos ch) (pos + 1) s"

definition insert_text :: "Document \<Rightarrow> codepoint list \<Rightarrow> Document" where
  "insert_text d s =
     (if s = [] then d
      else case insert_loop (chars d) (insertion d) s of
             (cs, pos) \<Rightarrow> d\<lparr>chars := cs, insertion := pos\<rparr>)"

definition delete_backspace :: "Document \<Rightarrow> int \<Rightarrow> error + Document" where
  "delete_backspace d lower_bound =
     (if insertion d > lower_bound \<and> insertion d > 0 then
        (case list_del (chars d) (insertion d - 1) of
           Inl e \<Rightarrow> Inl e
         | Inr cs \<Rightarrow> Inr (d\<lparr>chars := cs, insertion := insertion d - 1\<rparr>))
      else Inr d)"

text \<open>
  \<^verbatim>\<open>delete_range\<close>: both ends are clamped into \<open>[0, len]\<close> first, so the slice deletion
  \<^verbatim>\<open>del self._chars[start:end]\<close> is on indices in range.
\<close>

definition delete_range :: "Document \<Rightarrow> int \<Rightarrow> int \<Rightarrow> Document" where
  "delete_range d start end' =
     (let start = max 0 (min start (int (length (chars d))));
          end' = max 0 (min end' (int (length (chars d))))
      in if end' > start then
           d\<lparr>chars := take (nat start) (chars d) @ drop (nat end') (chars d),
             insertion := start\<rparr>
         else d)"

definition doc_length :: "Document \<Rightarrow> int" where
  "doc_length d = int (length (chars d))"

definition doc_text :: "Document \<Rightarrow> codepoint list" where
  "doc_text d = chars d"

definition on_page :: "Document \<Rightarrow> byte list \<Rightarrow> Document" where
  "on_page d page_le = d\<lparr>current_page := Some (int_from_bytes_le page_le)\<rparr>"

definition on_line :: "Document \<Rightarrow> byte list \<Rightarrow> error + Document" where
  "on_line d line_b =
     (case line_b of [] \<Rightarrow> Inl IndexError
      | b # _ \<Rightarrow> Inr (d\<lparr>current_line := Some (uint b)\<rparr>))"

definition on_format :: "Document \<Rightarrow> byte list \<Rightarrow> error + Document" where
  "on_format d fmt_b =
     (case fmt_b of [] \<Rightarrow> Inl IndexError
      | b # _ \<Rightarrow> Inr (d\<lparr>current_format := Some (uint b)\<rparr>))"

definition on_timecode :: "Document \<Rightarrow> Timecode \<Rightarrow> Document" where
  "on_timecode d tc =
     d\<lparr>time_index := AList.update (to_frames tc) (insertion d) (time_index d)\<rparr>"

definition on_prevent_save :: "Document \<Rightarrow> Document" where
  "on_prevent_save d = d\<lparr>prevent_save := True\<rparr>"

subsection \<open>LawBridgeParser\<close>

record LawBridgeParser =
  state :: ParserState
  refresh_mode :: RefreshMode
  doc :: Document
  refresh_start_tc :: "Timecode option"
  refresh_end_tc :: "Timecode option"
  refresh_start_pos :: "int option"
  refresh_end_pos :: "int option"
  refresh_buffer :: "Document option"
  refresh_lower_bound :: int
  frame_buf :: "byte list"
  in_cmd :: bool
  expected_len :: "nat option"
  current_cmd :: "byte option"

text \<open>
  A handler returns the parser after it, or \<open>Inl (e, p)\<close>: the exception raised and the
  parser as the raise leaves it (Python mutates the object in place, so what was assigned
  before the raise stays).
\<close>

type_synonym result = "(error \<times> LawBridgeParser) + LawBridgeParser"

definition init :: "RefreshMode \<Rightarrow> LawBridgeParser" where
  "init mode =
     \<lparr>state = NORMAL, refresh_mode = mode, doc = new_Document,
      refresh_start_tc = None, refresh_end_tc = None,
      refresh_start_pos = None, refresh_end_pos = None,
      refresh_buffer = None, refresh_lower_bound = 0,
      frame_buf = [], in_cmd = False, expected_len = None, current_cmd = None\<rparr>"

definition enter_frame :: "LawBridgeParser \<Rightarrow> LawBridgeParser" where
  "enter_frame p = p\<lparr>in_cmd := True, current_cmd := None, expected_len := None, frame_buf := []\<rparr>"

definition exit_frame :: "LawBridgeParser \<Rightarrow> LawBridgeParser" where
  "exit_frame p = p\<lparr>in_cmd := False, current_cmd := None, expected_len := None, frame_buf := []\<rparr>"

definition handle_unknown :: "LawBridgeParser \<Rightarrow> byte \<Rightarrow> byte list \<Rightarrow> LawBridgeParser" where
  "handle_unknown p cmd payload = p"

text \<open>
  \<^verbatim>\<open>_refresh_target_doc\<close> returns a reference to one of the parser's two documents; the
  handlers mutate the object behind it. The reference is a \<open>target\<close>; \<open>get_target\<close> reads
  through it and \<open>put_target\<close> writes through it. \<open>Scratch\<close> is returned only past the
  assertion that \<open>refresh_buffer\<close> is not \<open>None\<close>, so the \<open>None\<close> branch of
  \<open>get_target\<close> is never taken.
\<close>

datatype target = Main | Scratch

definition refresh_target_doc :: "LawBridgeParser \<Rightarrow> (error \<times> LawBridgeParser) + target" where
  "refresh_target_doc p =
     (if state p \<noteq> REFRESH then Inr Main
      else if refresh_mode p = BUFFER then
        (case refresh_buffer p of None \<Rightarrow> Inl (AssertionError, p) | Some _ \<Rightarrow> Inr Scratch)
      else Inr Main)"

fun get_target :: "LawBridgeParser \<Rightarrow> target \<Rightarrow> Document" where
  "get_target p Main = doc p"
| "get_target p Scratch = (case refresh_buffer p of Some b \<Rightarrow> b | None \<Rightarrow> doc p)"

fun put_target :: "LawBridgeParser \<Rightarrow> target \<Rightarrow> Document \<Rightarrow> LawBridgeParser" where
  "put_target p Main d = p\<lparr>doc := d\<rparr>"
| "put_target p Scratch d = p\<lparr>refresh_buffer := Some d\<rparr>"

definition parser_on_page :: "LawBridgeParser \<Rightarrow> byte list \<Rightarrow> result" where
  "parser_on_page p payload =
     (if state p = NORMAL then Inr (p\<lparr>doc := on_page (doc p) payload\<rparr>)
      else case refresh_target_doc p of
             Inl e \<Rightarrow> Inl e
           | Inr t \<Rightarrow> Inr (put_target p t (on_page (get_target p t) payload)))"

definition parser_on_line :: "LawBridgeParser \<Rightarrow> byte list \<Rightarrow> result" where
  "parser_on_line p payload =
     (if state p = NORMAL then
        (case on_line (doc p) payload of
           Inl e \<Rightarrow> Inl (e, p) | Inr d \<Rightarrow> Inr (p\<lparr>doc := d\<rparr>))
      else case refresh_target_doc p of
             Inl e \<Rightarrow> Inl e
           | Inr t \<Rightarrow>
               (case on_line (get_target p t) payload of
                  Inl e \<Rightarrow> Inl (e, p) | Inr d \<Rightarrow> Inr (put_target p t d)))"

definition parser_on_format :: "LawBridgeParser \<Rightarrow> byte list \<Rightarrow> result" where
  "parser_on_format p payload =
     (if state p = NORMAL then
        (case on_format (doc p) payload of
           Inl e \<Rightarrow> Inl (e, p) | Inr d \<Rightarrow> Inr (p\<lparr>doc := d\<rparr>))
      else case refresh_target_doc p of
             Inl e \<Rightarrow> Inl e
           | Inr t \<Rightarrow>
               (case on_format (get_target p t) payload of
                  Inl e \<Rightarrow> Inl (e, p) | Inr d \<Rightarrow> Inr (put_target p t d)))"

definition parser_on_timecode :: "LawBridgeParser \<Rightarrow> byte list \<Rightarrow> result" where
  "parser_on_timecode p payload =
     (case from_bytes payload of
        Inl e \<Rightarrow> Inl (e, p)
      | Inr tc \<Rightarrow>
          (if state p = NORMAL then Inr (p\<lparr>doc := on_timecode (doc p) tc\<rparr>)
           else (case refresh_target_doc p of
                   Inl e \<Rightarrow> Inl e
                 | Inr t \<Rightarrow> Inr (put_target p t (on_timecode (get_target p t) tc)))))"

definition parser_on_delete :: "LawBridgeParser \<Rightarrow> result" where
  "parser_on_delete p =
     (if state p = NORMAL then
        (case delete_backspace (doc p) 0 of
           Inl e \<Rightarrow> Inl (e, p) | Inr d \<Rightarrow> Inr (p\<lparr>doc := d\<rparr>))
      else if refresh_mode p = BUFFER then
        (case refresh_buffer p of
           None \<Rightarrow> Inl (AssertionError, p)
         | Some buf \<Rightarrow>
             (case delete_backspace buf 0 of
                Inl e \<Rightarrow> Inl (e, p) | Inr b \<Rightarrow> Inr (p\<lparr>refresh_buffer := Some b\<rparr>)))
      else
        (case delete_backspace (doc p) (refresh_lower_bound p) of
           Inl e \<Rightarrow> Inl (e, p) | Inr d \<Rightarrow> Inr (p\<lparr>doc := d\<rparr>)))"

definition parser_on_prevent_save :: "LawBridgeParser \<Rightarrow> result" where
  "parser_on_prevent_save p =
     (if state p = NORMAL then Inr (p\<lparr>doc := on_prevent_save (doc p)\<rparr>)
      else case refresh_target_doc p of
             Inl e \<Rightarrow> Inl e
           | Inr t \<Rightarrow>
               (let p1 = put_target p t (on_prevent_save (get_target p t))
                in Inr (p1\<lparr>doc := (doc p1)\<lparr>prevent_save := prevent_save (get_target p1 t)\<rparr>\<rparr>)))"

text \<open>
  \<^verbatim>\<open>_resolve_time_range\<close>. \<open>first_at_or_after\<close> is the \<^verbatim>\<open>for k in keys\<close> loop with its
  \<^verbatim>\<open>break\<close>; \<open>list_max\<close> and \<open>list_min\<close> are \<^verbatim>\<open>max\<close> and \<^verbatim>\<open>min\<close> of a list the source has
  checked to be non-empty.
\<close>

fun first_at_or_after :: "(int \<times> int) list \<Rightarrow> int \<Rightarrow> int list \<Rightarrow> error + int option" where
  "first_at_or_after ti start_frames [] = Inr None"
| "first_at_or_after ti start_frames (k # keys) =
     (if k \<ge> start_frames then
        (case dict_get ti k of Inl e \<Rightarrow> Inl e | Inr v \<Rightarrow> Inr (Some v))
      else first_at_or_after ti start_frames keys)"

definition list_max :: "int \<Rightarrow> int list \<Rightarrow> int" where
  "list_max k ks = fold max ks k"

definition list_min :: "int \<Rightarrow> int list \<Rightarrow> int" where
  "list_min k ks = fold min ks k"

definition resolve_time_range :: "Document \<Rightarrow> Timecode \<Rightarrow> Timecode \<Rightarrow> error + int \<times> int" where
  "resolve_time_range d start_tc end_tc =
     (let start_frames0 = to_frames start_tc;
          end_frames0 = to_frames end_tc;
          start_frames = (if end_frames0 < start_frames0 then end_frames0 else start_frames0);
          end_frames = (if end_frames0 < start_frames0 then start_frames0 else end_frames0)
      in if time_index d = [] then Inr (0, doc_length d)
         else
           (let keys = sort (map fst (time_index d)) in
            case (case first_at_or_after (time_index d) start_frames keys of
                    Inl e \<Rightarrow> Inl e
                  | Inr (Some v) \<Rightarrow> Inr v
                  | Inr None \<Rightarrow>
                      (case filter (\<lambda>k. k \<le> start_frames) keys of
                         [] \<Rightarrow> Inr 0
                       | k # ks \<Rightarrow> dict_get (time_index d) (list_max k ks))) of
              Inl e \<Rightarrow> Inl e
            | Inr s_pos \<Rightarrow>
               (case (case filter (\<lambda>k. k \<le> end_frames) keys of
                        k # ks \<Rightarrow> dict_get (time_index d) (list_max k ks)
                      | [] \<Rightarrow>
                          (case filter (\<lambda>k. k \<ge> end_frames) keys of
                             [] \<Rightarrow> Inr (doc_length d)
                           | k # ks \<Rightarrow> dict_get (time_index d) (list_min k ks))) of
                  Inl e \<Rightarrow> Inl e
                | Inr e_pos \<Rightarrow>
                    (let s_pos = max 0 (min s_pos (doc_length d));
                         e_pos = max 0 (min e_pos (doc_length d))
                     in if e_pos < s_pos then Inr (e_pos, s_pos) else Inr (s_pos, e_pos)))))"

definition on_refresh_begin :: "LawBridgeParser \<Rightarrow> byte list \<Rightarrow> result" where
  "on_refresh_begin p payload =
     (if length payload \<noteq> 8 then Inl (BadRefreshPayload, p)
      else if state p = REFRESH then Inl (NestedRefresh, p)
      else
        (case from_bytes (take 4 payload) of
           Inl e \<Rightarrow> Inl (e, p)
         | Inr stc \<Rightarrow>
            (let p1 = p\<lparr>refresh_start_tc := Some stc\<rparr> in
             case from_bytes (drop 4 payload) of
               Inl e \<Rightarrow> Inl (e, p1)
             | Inr etc \<Rightarrow>
                (let p2 = p1\<lparr>refresh_end_tc := Some etc\<rparr> in
                 case resolve_time_range (doc p2) stc etc of
                   Inl e \<Rightarrow> Inl (e, p2)
                 | Inr (s_pos, e_pos) \<Rightarrow>
                    (let p3 = p2\<lparr>refresh_start_pos := Some s_pos, refresh_end_pos := Some e_pos\<rparr>;
                         p4 = (if refresh_mode p3 = BUFFER then
                                 p3\<lparr>refresh_buffer := Some (set_insertion new_Document 0)\<rparr>
                               else
                                 p3\<lparr>doc := set_insertion (delete_range (doc p3) s_pos e_pos) s_pos,
                                    refresh_lower_bound := s_pos\<rparr>)
                     in Inr (p4\<lparr>state := REFRESH\<rparr>))))))"

definition reset_refresh :: "LawBridgeParser \<Rightarrow> LawBridgeParser" where
  "reset_refresh p =
     p\<lparr>state := NORMAL, refresh_start_tc := None, refresh_end_tc := None,
       refresh_start_pos := None, refresh_end_pos := None, refresh_buffer := None,
       refresh_lower_bound := 0\<rparr>"

definition on_refresh_end :: "LawBridgeParser \<Rightarrow> result" where
  "on_refresh_end p =
     (if state p \<noteq> REFRESH then Inr p
      else if refresh_mode p = BUFFER then
        (case (refresh_start_pos p, refresh_end_pos p) of
           (Some start_pos, Some end_pos) \<Rightarrow>
             (case refresh_buffer p of
                None \<Rightarrow> Inl (AssertionError, p)
              | Some buf \<Rightarrow>
                 (let buf_text = doc_text buf;
                      d1 = delete_range (doc p) start_pos end_pos;
                      d2 = set_insertion d1 start_pos;
                      d3 = insert_text d2 buf_text;
                      d4 = d3\<lparr>prevent_save := prevent_save buf\<rparr>
                  in Inr (reset_refresh (p\<lparr>doc := d4\<rparr>))))
         | _ \<Rightarrow> Inl (AssertionError, p))
      else Inr (reset_refresh (p\<lparr>doc := set_insertion (doc p) (doc_length (doc p))\<rparr>)))"

text \<open>
  \<^verbatim>\<open>bs.decode('ascii', errors='strict')\<close> raises on a byte from 0x80 up; the handler then
  decodes again with \<^verbatim>\<open>errors='replace'\<close>, which gives U+FFFD for each such byte.
\<close>

definition decode_strict :: "byte list \<Rightarrow> codepoint list option" where
  "decode_strict bs = (if list_all (\<lambda>b. b < 0x80) bs then Some (map unat bs) else None)"

definition decode_replace :: "byte list \<Rightarrow> codepoint list" where
  "decode_replace bs = map (\<lambda>b. if b < 0x80 then unat b else 0xFFFD) bs"

definition insert_text_bytes :: "LawBridgeParser \<Rightarrow> byte list \<Rightarrow> result" where
  "insert_text_bytes p bs =
     (let s = (case decode_strict bs of Some s \<Rightarrow> s | None \<Rightarrow> decode_replace bs)
      in if state p = NORMAL then Inr (p\<lparr>doc := insert_text (doc p) s\<rparr>)
         else if refresh_mode p = BUFFER then
           (case refresh_buffer p of
              None \<Rightarrow> Inl (AssertionError, p)
            | Some buf \<Rightarrow> Inr (p\<lparr>refresh_buffer := Some (insert_text buf s)\<rparr>))
         else Inr (p\<lparr>doc := insert_text (doc p) s\<rparr>))"

definition dispatch_cmd :: "LawBridgeParser \<Rightarrow> byte \<Rightarrow> byte list \<Rightarrow> result" where
  "dispatch_cmd p cmd payload =
     (if cmd = 0x50 then parser_on_page p payload
      else if cmd = 0x4E then parser_on_line p payload
      else if cmd = 0x46 then parser_on_format p payload
      else if cmd = 0x54 then parser_on_timecode p payload
      else if cmd = 0x44 then parser_on_delete p
      else if cmd = 0x4B then parser_on_prevent_save p
      else if cmd = 0x52 then on_refresh_begin p payload
      else if cmd = 0x45 then on_refresh_end p
      else Inr (handle_unknown p cmd payload))"

text \<open>The body of the \<^verbatim>\<open>for b in data\<close> loop of \<^verbatim>\<open>feed\<close>, for one byte.\<close>

definition feed_byte :: "LawBridgeParser \<Rightarrow> byte \<Rightarrow> result" where
  "feed_byte p b =
     (if \<not> in_cmd p then
        (if b = STX then Inr (enter_frame p) else insert_text_bytes p [b])
      else
        (case current_cmd p of
           None \<Rightarrow> Inr (p\<lparr>current_cmd := Some b, expected_len := CMD_LEN b\<rparr>)
         | Some cmd \<Rightarrow>
            (case expected_len p of
               None \<Rightarrow>
                 (if b = ETX then Inr (exit_frame (handle_unknown p cmd (frame_buf p)))
                  else Inr (p\<lparr>frame_buf := frame_buf p @ [b]\<rparr>))
             | Some n \<Rightarrow>
                 (if length (frame_buf p) < n then Inr (p\<lparr>frame_buf := frame_buf p @ [b]\<rparr>)
                  else if b \<noteq> ETX then Inl (MalformedFrame cmd, p)
                  else (case dispatch_cmd p cmd (frame_buf p) of
                          Inl e \<Rightarrow> Inl e
                        | Inr p' \<Rightarrow> Inr (exit_frame p'))))))"

text \<open>
  \<^verbatim>\<open>feed\<close>: the loop over the bytes of the chunk. All the state the loop uses is in the
  parser object; an exception ends the call where it is raised.
\<close>

fun feed :: "LawBridgeParser \<Rightarrow> byte list \<Rightarrow> result" where
  "feed p [] = Inr p"
| "feed p (b # data) =
     (case feed_byte p b of Inl e \<Rightarrow> Inl e | Inr p' \<Rightarrow> feed p' data)"

definition document_text :: "LawBridgeParser \<Rightarrow> codepoint list" where
  "document_text p = doc_text (doc p)"

subsection \<open>The frame builder\<close>

definition frame :: "byte \<Rightarrow> byte list \<Rightarrow> error + byte list" where
  "frame cmd payload =
     (case CMD_LEN cmd of
        None \<Rightarrow> Inl UnknownCommand
      | Some expected \<Rightarrow>
          if length payload \<noteq> expected then Inl BadPayloadLength
          else Inr ([STX] @ [cmd] @ payload @ [ETX]))"

section \<open>Vocabulary of the properties\<close>

text \<open>The cursor of a document is inside it.\<close>

definition doc_ok :: "Document \<Rightarrow> bool" where
  "doc_ok d = (0 \<le> insertion d \<and> insertion d \<le> int (length (chars d)))"

text \<open>
  Range resolution as the specification words it: the keys of the time index, the offset
  stored under a key, the start anchor, the end anchor, clamping into \<open>[0, L]\<close>, and the
  two swaps.
\<close>

definition keys_of :: "(int \<times> int) list \<Rightarrow> int set" where
  "keys_of ti = fst ` set ti"

definition stored_offset :: "(int \<times> int) list \<Rightarrow> int \<Rightarrow> int" where
  "stored_offset ti k = the (map_of ti k)"

definition spec_start_anchor :: "(int \<times> int) list \<Rightarrow> int \<Rightarrow> int" where
  "spec_start_anchor ti start_frames =
     (if {k \<in> keys_of ti. k \<ge> start_frames} \<noteq> {} then
        stored_offset ti (Min {k \<in> keys_of ti. k \<ge> start_frames})
      else if {k \<in> keys_of ti. k \<le> start_frames} \<noteq> {} then
        stored_offset ti (Max {k \<in> keys_of ti. k \<le> start_frames})
      else 0)"

definition spec_end_anchor :: "(int \<times> int) list \<Rightarrow> int \<Rightarrow> int \<Rightarrow> int" where
  "spec_end_anchor ti L end_frames =
     (if {k \<in> keys_of ti. k \<le> end_frames} \<noteq> {} then
        stored_offset ti (Max {k \<in> keys_of ti. k \<le> end_frames})
      else if {k \<in> keys_of ti. k \<ge> end_frames} \<noteq> {} then
        stored_offset ti (Min {k \<in> keys_of ti. k \<ge> end_frames})
      else L)"

definition clamp :: "int \<Rightarrow> int \<Rightarrow> int" where
  "clamp L x = (if x < 0 then 0 else if x > L then L else x)"

definition spec_resolve :: "(int \<times> int) list \<Rightarrow> int \<Rightarrow> int \<Rightarrow> int \<Rightarrow> int \<times> int" where
  "spec_resolve ti L start_frames end_frames =
     (let sf = (if start_frames > end_frames then end_frames else start_frames);
          ef = (if start_frames > end_frames then start_frames else end_frames);
          start_pos = clamp L (spec_start_anchor ti sf);
          end_pos = clamp L (spec_end_anchor ti L ef)
      in if end_pos < start_pos then (end_pos, start_pos) else (start_pos, end_pos))"

text \<open>The parser inside a frame of command \<open>c\<close> whose payload has been read.\<close>

definition in_frame :: "LawBridgeParser \<Rightarrow> byte \<Rightarrow> byte list \<Rightarrow> LawBridgeParser" where
  "in_frame p c payload =
     p\<lparr>in_cmd := True, current_cmd := Some c, expected_len := CMD_LEN c, frame_buf := payload\<rparr>"

text \<open>
  Between two parsers of a buffered refresh: the main document differs in its
  \<open>prevent_save\<close> flag at most, the resolved range and the mode are the same, and the
  scratch document is still there.
\<close>

definition scratch_only :: "LawBridgeParser \<Rightarrow> LawBridgeParser \<Rightarrow> bool" where
  "scratch_only p p' =
     (doc p' = (doc p)\<lparr>prevent_save := prevent_save (doc p')\<rparr>
      \<and> refresh_mode p' = refresh_mode p
      \<and> refresh_start_pos p' = refresh_start_pos p
      \<and> refresh_end_pos p' = refresh_end_pos p
      \<and> (refresh_buffer p \<noteq> None \<longrightarrow> refresh_buffer p' \<noteq> None))"

text \<open>The \<open>prevent_save\<close> flags of the main and of the scratch document are the same.\<close>

definition flags_kept :: "LawBridgeParser \<Rightarrow> LawBridgeParser \<Rightarrow> bool" where
  "flags_kept p p' =
     (prevent_save (doc p') = prevent_save (doc p)
      \<and> map_option prevent_save (refresh_buffer p') = map_option prevent_save (refresh_buffer p))"

text \<open>
  Byte \<open>b\<close> completes a frame of the known command \<open>c\<close>: \<^verbatim>\<open>feed\<close> calls
  \<^verbatim>\<open>_dispatch_cmd\<close> on it.
\<close>

definition dispatches :: "LawBridgeParser \<Rightarrow> byte \<Rightarrow> byte \<Rightarrow> bool" where
  "dispatches p b c =
     (in_cmd p \<and> current_cmd p = Some c
      \<and> (case expected_len p of None \<Rightarrow> False | Some n \<Rightarrow> \<not> length (frame_buf p) < n)
      \<and> b = ETX)"

text \<open>
  The bytes are fed with no exception, and the parser is in REFRESH before the first and
  after each of them: they lie between an R and its matching E.
\<close>

fun stays_in_refresh :: "LawBridgeParser \<Rightarrow> byte list \<Rightarrow> bool" where
  "stays_in_refresh p [] = (state p = REFRESH)"
| "stays_in_refresh p (b # bs) =
     (state p = REFRESH
      \<and> (case feed_byte p b of Inl _ \<Rightarrow> False | Inr p' \<Rightarrow> stays_in_refresh p' bs))"

text \<open>No byte of the sequence completes a K frame.\<close>

fun no_K_received :: "LawBridgeParser \<Rightarrow> byte list \<Rightarrow> bool" where
  "no_K_received p [] = True"
| "no_K_received p (b # bs) =
     (\<not> dispatches p b 0x4B
      \<and> (case feed_byte p b of Inl _ \<Rightarrow> True | Inr p' \<Rightarrow> no_K_received p' bs))"

text \<open>The cursor invariant of a parser: of its main document, and of the scratch one if any.\<close>

definition cursor_ok :: "LawBridgeParser \<Rightarrow> bool" where
  "cursor_ok p =
     (doc_ok (doc p) \<and> (case refresh_buffer p of None \<Rightarrow> True | Some buf \<Rightarrow> doc_ok buf))"

text \<open>The invariant after a call, whether it returned or raised.\<close>

definition result_ok :: "result \<Rightarrow> bool" where
  "result_ok r = (case r of Inl (e, p) \<Rightarrow> cursor_ok p | Inr p \<Rightarrow> cursor_ok p)"

text \<open>
  The active edit target: the scratch document in a buffered refresh, the main document
  otherwise.
\<close>

definition active_target :: "LawBridgeParser \<Rightarrow> Document option" where
  "active_target p =
     (if state p = REFRESH \<and> refresh_mode p = BUFFER then refresh_buffer p else Some (doc p))"

subsection \<open>Concrete inputs\<close>

text \<open>
  A document for the examples: \<open>AABBCC\<close> with timecode 0 recorded at offset 2 and
  timecode 30 (one second) at offset 4, and a parser that holds it.
\<close>

definition ex_doc :: Document where
  "ex_doc = new_Document\<lparr>chars := [65, 65, 66, 66, 67, 67], insertion := 6,
                          time_index := [(0, 2), (30, 4)]\<rparr>"

definition ex_parser :: "RefreshMode \<Rightarrow> LawBridgeParser" where
  "ex_parser mode = (init mode)\<lparr>doc := ex_doc\<rparr>"

text \<open>
  The R payload of the examples (start 00:00:00:00, end 00:00:01:00) with its frame, the E
  and K frames, the parser after that R in each mode, the refresh content \<open>XYZ\<close>, the
  buffered parser after it, and a parser with \<open>prevent_save\<close> set on the main document.
\<close>

definition ex_payload :: "byte list" where
  "ex_payload = [0, 0, 0, 0, 0, 0, 1, 0]"

definition ex_R :: "byte list" where
  "ex_R = [0x02, 0x52, 0, 0, 0, 0, 0, 0, 1, 0, 0x03]"

definition ex_E :: "byte list" where
  "ex_E = [0x02, 0x45, 0x03]"

definition ex_refresh :: "RefreshMode \<Rightarrow> LawBridgeParser" where
  "ex_refresh mode =
     (if mode = BUFFER then
        (ex_parser BUFFER)
          \<lparr>refresh_start_tc := Some \<lparr>hh = 0, mm = 0, ss = 0, ff = 0\<rparr>,
           refresh_end_tc := Some \<lparr>hh = 0, mm = 0, ss = 1, ff = 0\<rparr>,
           refresh_start_pos := Some 2, refresh_end_pos := Some 4,
           refresh_buffer := Some new_Document, state := REFRESH\<rparr>
      else
        (ex_parser STREAM)
          \<lparr>refresh_start_tc := Some \<lparr>hh = 0, mm = 0, ss = 0, ff = 0\<rparr>,
           refresh_end_tc := Some \<lparr>hh = 0, mm = 0, ss = 1, ff = 0\<rparr>,
           refresh_start_pos := Some 2, refresh_end_pos := Some 4,
           doc := ex_doc\<lparr>chars := [65, 65, 67, 67], insertion := 2\<rparr>,
           refresh_lower_bound := 2, state := REFRESH\<rparr>)"

definition ex_mid :: "byte list" where
  "ex_mid = [88, 89, 90]"

definition ex_filled :: LawBridgeParser where
  "ex_filled =
     (ex_refresh BUFFER)\<lparr>refresh_buffer := Some (new_Document\<lparr>chars := [88, 89, 90], insertion := 3\<rparr>)\<rparr>"

definition ex_flag :: "LawBridgeParser \<Rightarrow> LawBridgeParser" where
  "ex_flag p = p\<lparr>doc := (doc p)\<lparr>prevent_save := True\<rparr>\<rparr>"

definition ex_K :: "byte list" where
  "ex_K = [0x02, 0x4B, 0x03]"

section \<open>Document operations\<close>

lemma list_del_in_range:
  "0 \<le> i \<Longrightarrow> i < int (length xs) \<Longrightarrow>
   list_del xs i = Inr (take (nat i) xs @ drop (nat (i + 1)) xs)"
  by (simp add: list_del_def Let_def Suc_nat_eq_nat_zadd1 add.commute)

lemma list_del_beyond:
  "int (length xs) \<le> i \<Longrightarrow> list_del xs i = Inl IndexError"
  by (simp add: list_del_def Let_def)

text \<open>
  C7. \<^verbatim>\<open>delete_backspace(lower_bound)\<close> removes a character only when the cursor is above
  \<open>lower_bound\<close> and above 0: then (the cursor being inside the document) it removes
  exactly the character at offset \<open>insertion - 1\<close>, an offset that is at least
  \<open>lower_bound\<close>, and moves the cursor back by one; otherwise the document is returned
  as it is. A cursor beyond the end, which no document of a parser has, makes the deletion
  raise with nothing removed. In every case the characters at offsets below
  \<open>lower_bound\<close> are the same afterwards.
\<close>

theorem delete_backspace_respects_lower_bound:
  "(insertion d > lower_bound \<and> insertion d > 0 \<and> insertion d \<le> int (length (chars d)) \<longrightarrow>
      delete_backspace d lower_bound =
        Inr (d\<lparr>chars := take (nat (insertion d - 1)) (chars d) @ drop (nat (insertion d)) (chars d),
               insertion := insertion d - 1\<rparr>)
      \<and> lower_bound \<le> insertion d - 1)
   \<and> (\<not> (insertion d > lower_bound \<and> insertion d > 0) \<longrightarrow> delete_backspace d lower_bound = Inr d)
   \<and> (insertion d > lower_bound \<and> insertion d > 0 \<and> insertion d > int (length (chars d)) \<longrightarrow>
      delete_backspace d lower_bound = Inl IndexError)
   \<and> (\<forall>d'. delete_backspace d lower_bound = Inr d' \<longrightarrow>
          take (nat lower_bound) (chars d') = take (nat lower_bound) (chars d))"
proof (intro conjI impI allI)
  assume h: "insertion d > lower_bound \<and> insertion d > 0 \<and> insertion d \<le> int (length (chars d))"
  then show "delete_backspace d lower_bound =
        Inr (d\<lparr>chars := take (nat (insertion d - 1)) (chars d) @ drop (nat (insertion d)) (chars d),
               insertion := insertion d - 1\<rparr>)"
    by (simp add: delete_backspace_def list_del_in_range)
  from h show "lower_bound \<le> insertion d - 1" by simp
next
  assume "\<not> (insertion d > lower_bound \<and> insertion d > 0)"
  then show "delete_backspace d lower_bound = Inr d"
    by (auto simp add: delete_backspace_def)
next
  assume "insertion d > lower_bound \<and> insertion d > 0 \<and> insertion d > int (length (chars d))"
  then show "delete_backspace d lower_bound = Inl IndexError"
    by (simp add: delete_backspace_def list_del_beyond)
next
  fix d'
  assume r: "delete_backspace d lower_bound = Inr d'"
  show "take (nat lower_bound) (chars d') = take (nat lower_bound) (chars d)"
  proof (cases "insertion d > lower_bound \<and> insertion d > 0")
    case False
    with r show ?thesis by (simp add: delete_backspace_def)
  next
    case True
    show ?thesis
    proof (cases "insertion d \<le> int (length (chars d))")
      case False
      with True r show ?thesis by (simp add: delete_backspace_def list_del_beyond)
    next
      case le: True
      with True r have "chars d' =
          take (nat (insertion d - 1)) (chars d) @ drop (nat (insertion d)) (chars d)"
        by (auto simp add: delete_backspace_def list_del_in_range)
      moreover from True have "nat lower_bound \<le> nat (insertion d - 1)" by arith
      moreover from le True have "nat (insertion d - 1) \<le> length (chars d)" by arith
      ultimately show ?thesis by (simp add: min_absorb1)
    qed
  qed
qed

text \<open>
  The theorem at the document \<open>ABC\<close> with the cursor at 2: with lower bound 1 the
  \<open>B\<close> at offset 1 goes, with lower bound 2 nothing does.
\<close>

theorem delete_backspace_respects_lower_bound_witness:
  "insertion (new_Document\<lparr>chars := [65, 66, 67], insertion := 2\<rparr>) > 1
   \<and> insertion (new_Document\<lparr>chars := [65, 66, 67], insertion := 2\<rparr>)
        \<le> int (length (chars (new_Document\<lparr>chars := [65, 66, 67], insertion := 2\<rparr>)))
   \<and> delete_backspace (new_Document\<lparr>chars := [65, 66, 67], insertion := 2\<rparr>) 1
        = Inr (new_Document\<lparr>chars := [65, 67], insertion := 1\<rparr>)
   \<and> \<not> (insertion (new_Document\<lparr>chars := [65, 66, 67], insertion := 2\<rparr>) > 2)
   \<and> delete_backspace (new_Document\<lparr>chars := [65, 66, 67], insertion := 2\<rparr>) 2
        = Inr (new_Document\<lparr>chars := [65, 66, 67], insertion := 2\<rparr>)
   \<and> take (nat 1) (chars (new_Document\<lparr>chars := [65, 67], insertion := 1\<rparr>))
        = take (nat 1) (chars (new_Document\<lparr>chars := [65, 66, 67], insertion := 2\<rparr>))"
  using delete_backspace_respects_lower_bound
          [of 1 "new_Document\<lparr>chars := [65, 66, 67], insertion := 2\<rparr>"]
        delete_backspace_respects_lower_bound
          [of 2 "new_Document\<lparr>chars := [65, 66, 67], insertion := 2\<rparr>"]
  by (simp add: new_Document_def)

section \<open>Range resolution\<close>

lemma dict_get_key: "k \<in> fst ` set ti \<Longrightarrow> dict_get ti k = Inr (stored_offset ti k)"
  by (auto simp add: dict_get_def stored_offset_def map_of_eq_None_iff split: option.splits)

lemma first_at_or_after_sorted:
  "sorted ks \<Longrightarrow> set ks \<subseteq> fst ` set ti \<Longrightarrow>
   first_at_or_after ti sf ks =
     (if {k \<in> set ks. sf \<le> k} = {} then Inr None
      else Inr (Some (stored_offset ti (Min {k \<in> set ks. sf \<le> k}))))"
proof (induction ks)
  case Nil
  then show ?case by simp
next
  case (Cons a ks)
  show ?case
  proof (cases "sf \<le> a")
    case True
    have "Min {k \<in> set (a # ks). sf \<le> k} = a"
      using True Cons.prems(1) by (intro Min_eqI) auto
    moreover have "{k \<in> set (a # ks). sf \<le> k} \<noteq> {}" using True by auto
    ultimately show ?thesis using True Cons.prems(2) by (simp add: dict_get_key)
  next
    case False
    then have "{k \<in> set (a # ks). sf \<le> k} = {k \<in> set ks. sf \<le> k}" by auto
    then show ?thesis using False Cons by simp
  qed
qed

lemma list_max_Max: "list_max k ks = Max (set (k # ks))"
  by (simp only: list_max_def Max.set_eq_fold)

lemma list_min_Min: "list_min k ks = Min (set (k # ks))"
  by (simp only: list_min_def Min.set_eq_fold)

lemma set_sorted_keys: "set (sort (map fst ti)) = keys_of ti"
  by (simp add: keys_of_def)

lemma filter_keys_Nil:
  "filter P (sort (map fst ti)) = [] \<Longrightarrow> {k \<in> keys_of ti. P k} = {}"
  by (auto simp add: filter_empty_conv keys_of_def)

lemma filter_keys_Cons:
  "filter P (sort (map fst ti)) = k # ks \<Longrightarrow>
     set (k # ks) = {k \<in> keys_of ti. P k}"
proof -
  assume a: "filter P (sort (map fst ti)) = k # ks"
  have "set (filter P (sort (map fst ti))) = {k \<in> keys_of ti. P k}"
    by (auto simp add: keys_of_def)
  with a show ?thesis by simp
qed

lemma start_anchor_refines:
  "time_index d \<noteq> [] \<Longrightarrow>
   (case first_at_or_after (time_index d) sf (sort (map fst (time_index d))) of
      Inl e \<Rightarrow> Inl e
    | Inr (Some v) \<Rightarrow> Inr v
    | Inr None \<Rightarrow>
        (case filter (\<lambda>k. k \<le> sf) (sort (map fst (time_index d))) of
           [] \<Rightarrow> Inr 0
         | k # ks \<Rightarrow> dict_get (time_index d) (list_max k ks)))
   = Inr (spec_start_anchor (time_index d) sf)"
proof -
  let ?ti = "time_index d"
  let ?keys = "sort (map fst ?ti)"
  have f: "first_at_or_after ?ti sf ?keys =
     (if {k \<in> keys_of ?ti. sf \<le> k} = {} then Inr None
      else Inr (Some (stored_offset ?ti (Min {k \<in> keys_of ?ti. sf \<le> k}))))"
    using first_at_or_after_sorted [of ?keys ?ti sf] by (simp add: keys_of_def)
  show ?thesis
  proof (cases "{k \<in> keys_of ?ti. sf \<le> k} = {}")
    case False
    then show ?thesis by (auto simp add: f spec_start_anchor_def)
  next
    case True
    show ?thesis
    proof (cases "filter (\<lambda>k. k \<le> sf) ?keys")
      case Nil
      from filter_keys_Nil [OF Nil] True show ?thesis
        by (simp add: f spec_start_anchor_def Nil)
    next
      case (Cons k ks)
      note s = filter_keys_Cons [OF Cons]
      have ne: "{k \<in> keys_of ?ti. k \<le> sf} \<noteq> {}" using s by auto
      have "Max (set (k # ks)) \<in> set (k # ks)" by (rule Max_in) simp_all
      then have "Max (set (k # ks)) \<in> fst ` set ?ti" unfolding s by (simp add: keys_of_def)
      then have "dict_get ?ti (list_max k ks) = Inr (stored_offset ?ti (Max {k \<in> keys_of ?ti. k \<le> sf}))"
        by (simp add: list_max_Max dict_get_key s del: set_simps)
      with True ne show ?thesis
        by (simp add: f spec_start_anchor_def Cons)
    qed
  qed
qed

lemma end_anchor_refines:
  "time_index d \<noteq> [] \<Longrightarrow>
   (case filter (\<lambda>k. k \<le> ef) (sort (map fst (time_index d))) of
      k # ks \<Rightarrow> dict_get (time_index d) (list_max k ks)
    | [] \<Rightarrow>
        (case filter (\<lambda>k. k \<ge> ef) (sort (map fst (time_index d))) of
           [] \<Rightarrow> Inr (doc_length d)
         | k # ks \<Rightarrow> dict_get (time_index d) (list_min k ks)))
   = Inr (spec_end_anchor (time_index d) (doc_length d) ef)"
proof -
  let ?ti = "time_index d"
  let ?keys = "sort (map fst ?ti)"
  show ?thesis
  proof (cases "filter (\<lambda>k. k \<le> ef) ?keys")
    case (Cons k ks)
    note s = filter_keys_Cons [OF Cons]
    have ne: "{k \<in> keys_of ?ti. k \<le> ef} \<noteq> {}" using s by auto
    have "Max (set (k # ks)) \<in> set (k # ks)" by (rule Max_in) simp_all
    then have "Max (set (k # ks)) \<in> fst ` set ?ti" unfolding s by (simp add: keys_of_def)
    then have "dict_get ?ti (list_max k ks) = Inr (stored_offset ?ti (Max {k \<in> keys_of ?ti. k \<le> ef}))"
      by (simp add: list_max_Max dict_get_key s del: set_simps)
    with ne show ?thesis by (simp add: spec_end_anchor_def Cons)
  next
    case Nil
    note e1 = filter_keys_Nil [OF Nil]
    show ?thesis
    proof (cases "filter (\<lambda>k. k \<ge> ef) ?keys")
      case Nil2: Nil
      from filter_keys_Nil [OF Nil2] e1 show ?thesis
        by (simp add: spec_end_anchor_def Nil Nil2)
    next
      case (Cons k ks)
      note s = filter_keys_Cons [OF Cons]
      have ne: "{k \<in> keys_of ?ti. k \<ge> ef} \<noteq> {}" using s by auto
      have "Min (set (k # ks)) \<in> set (k # ks)" by (rule Min_in) simp_all
      then have "Min (set (k # ks)) \<in> fst ` set ?ti" unfolding s by (simp add: keys_of_def)
      then have "dict_get ?ti (list_min k ks) = Inr (stored_offset ?ti (Min {k \<in> keys_of ?ti. k \<ge> ef}))"
        by (simp add: list_min_Min dict_get_key s del: set_simps)
      with e1 ne show ?thesis by (simp add: spec_end_anchor_def Nil Cons)
    qed
  qed
qed

lemma clamp_max_min: "0 \<le> L \<Longrightarrow> max 0 (min x L) = clamp L x"
  by (simp add: clamp_def)

lemma spec_anchors_empty:
  "spec_start_anchor [] sf = 0" "spec_end_anchor [] L ef = L"
  by (simp_all add: spec_start_anchor_def spec_end_anchor_def keys_of_def)

lemma resolve_time_range_refines:
  "resolve_time_range d start_tc end_tc =
     Inr (spec_resolve (time_index d) (doc_length d) (to_frames start_tc) (to_frames end_tc))"
proof (cases "time_index d = []")
  case True
  have "0 \<le> doc_length d" by (simp add: doc_length_def)
  then show ?thesis using True
    by (simp add: resolve_time_range_def spec_resolve_def Let_def spec_anchors_empty clamp_def)
next
  case False
  have L: "0 \<le> doc_length d" by (simp add: doc_length_def)
  show ?thesis
    using False
    by (simp add: resolve_time_range_def spec_resolve_def Let_def start_anchor_refines
        end_anchor_refines clamp_max_min [OF L])
qed

text \<open>
  C1. \<^verbatim>\<open>_resolve_time_range\<close> never raises, and its result is the one the specification
  describes: the frame counts swapped when the start is after the end; the start anchor
  the offset stored under the smallest key at or after the start, else under the largest
  key at or before it, else 0; the end anchor the offset stored under the largest key at
  or before the end, else under the smallest key at or after it, else the length; both
  clamped into \<open>[0, L]\<close> and swapped when the end is before the start.
\<close>

theorem resolve_time_range_spec:
  "resolve_time_range d start_tc end_tc =
     Inr (spec_resolve (time_index d) (doc_length d) (to_frames start_tc) (to_frames end_tc))"
  by (rule resolve_time_range_refines)

section \<open>Frames\<close>

lemma feed_append:
  "feed p (a @ b) = (case feed p a of Inl e \<Rightarrow> Inl e | Inr p' \<Rightarrow> feed p' b)"
  by (induction a arbitrary: p) (auto split: sum.splits)

lemma feed_byte_payload:
  "in_cmd p \<Longrightarrow> current_cmd p = Some c \<Longrightarrow> expected_len p = Some n \<Longrightarrow>
   length (frame_buf p) < n \<Longrightarrow> feed_byte p b = Inr (p\<lparr>frame_buf := frame_buf p @ [b]\<rparr>)"
  by (simp add: feed_byte_def)

lemma feed_payload:
  "in_cmd p \<Longrightarrow> current_cmd p = Some c \<Longrightarrow> expected_len p = Some n \<Longrightarrow>
   length (frame_buf p) + length bs \<le> n \<Longrightarrow>
   feed p (bs @ rest) = feed (p\<lparr>frame_buf := frame_buf p @ bs\<rparr>) rest"
proof (induction bs arbitrary: p)
  case Nil
  then show ?case by simp
next
  case (Cons b bs)
  let ?p = "p\<lparr>frame_buf := frame_buf p @ [b]\<rparr>"
  from Cons.prems have "feed_byte p b = Inr ?p"
    by (intro feed_byte_payload) auto
  moreover have "feed ?p (bs @ rest) = feed (?p\<lparr>frame_buf := frame_buf ?p @ bs\<rparr>) rest"
    using Cons.prems by (intro Cons.IH) simp_all
  ultimately show ?case by simp
qed

lemma feed_known_frame:
  assumes "\<not> in_cmd p" "CMD_LEN c = Some n" "length payload = n"
  shows "feed p (STX # c # payload @ ETX # rest) =
     (case dispatch_cmd (in_frame p c payload) c payload of
        Inl e \<Rightarrow> Inl e
      | Inr p' \<Rightarrow> feed (exit_frame p') rest)"
proof -
  let ?p1 = "enter_frame p"
  let ?p2 = "?p1\<lparr>current_cmd := Some c, expected_len := CMD_LEN c\<rparr>"
  have 1: "feed_byte p STX = Inr ?p1" using assms(1) by (simp add: feed_byte_def)
  have 2: "feed_byte ?p1 c = Inr ?p2" by (simp add: feed_byte_def enter_frame_def)
  have 3: "feed ?p2 (payload @ ETX # rest) = feed (?p2\<lparr>frame_buf := frame_buf ?p2 @ payload\<rparr>) (ETX # rest)"
    using assms by (intro feed_payload [where c = c and n = n]) (simp_all add: enter_frame_def)
  have 4: "?p2\<lparr>frame_buf := frame_buf ?p2 @ payload\<rparr> = in_frame p c payload"
    by (simp add: enter_frame_def in_frame_def)
  have 5: "feed_byte (in_frame p c payload) ETX =
      (case dispatch_cmd (in_frame p c payload) c payload of
        Inl e \<Rightarrow> Inl e | Inr p' \<Rightarrow> Inr (exit_frame p'))"
    using assms by (simp add: feed_byte_def in_frame_def)
  have "feed p (STX # c # payload @ ETX # rest) = feed ?p2 (payload @ ETX # rest)"
    by (simp add: 1 2)
  also have "\<dots> = feed (in_frame p c payload) (ETX # rest)"
    by (simp only: 3 4)
  also have "\<dots> = (case dispatch_cmd (in_frame p c payload) c payload of
        Inl e \<Rightarrow> Inl e
      | Inr p' \<Rightarrow> feed (exit_frame p') rest)"
    by (simp add: 5 split: sum.splits)
  finally show ?thesis .
qed

lemma prevent_save_on_page: "prevent_save (on_page d x) = prevent_save d"
  by (simp add: on_page_def)

lemma prevent_save_on_timecode: "prevent_save (on_timecode d tc) = prevent_save d"
  by (simp add: on_timecode_def)

lemma prevent_save_insert_text: "prevent_save (insert_text d s) = prevent_save d"
  by (simp add: insert_text_def split: prod.splits)

lemma prevent_save_on_line: "on_line d x = Inr d' \<Longrightarrow> prevent_save d' = prevent_save d"
  by (auto simp add: on_line_def split: list.splits)

lemma prevent_save_on_format: "on_format d x = Inr d' \<Longrightarrow> prevent_save d' = prevent_save d"
  by (auto simp add: on_format_def split: list.splits)

lemma prevent_save_delete_backspace:
  "delete_backspace d lb = Inr d' \<Longrightarrow> prevent_save d' = prevent_save d"
  by (auto simp add: delete_backspace_def split: if_splits sum.splits)

lemmas flag_simps = prevent_save_on_page prevent_save_on_timecode prevent_save_insert_text

lemmas flag_dests = prevent_save_on_line prevent_save_on_format prevent_save_delete_backspace

lemma scratch_only_refl: "scratch_only p p"
  by (simp add: scratch_only_def)

lemma page_scratch_only:
  "state p = REFRESH \<Longrightarrow> refresh_mode p = BUFFER \<Longrightarrow> parser_on_page p payload = Inr p' \<Longrightarrow>
   scratch_only p p' \<and> flags_kept p p'"
  by (auto simp add: parser_on_page_def refresh_target_doc_def scratch_only_def flags_kept_def flag_simps
      dest: flag_dests split: option.splits)

lemma line_scratch_only:
  "state p = REFRESH \<Longrightarrow> refresh_mode p = BUFFER \<Longrightarrow> parser_on_line p payload = Inr p' \<Longrightarrow>
   scratch_only p p' \<and> flags_kept p p'"
  by (auto simp add: parser_on_line_def refresh_target_doc_def scratch_only_def flags_kept_def flag_simps
      dest: flag_dests split: option.splits sum.splits)

lemma format_scratch_only:
  "state p = REFRESH \<Longrightarrow> refresh_mode p = BUFFER \<Longrightarrow> parser_on_format p payload = Inr p' \<Longrightarrow>
   scratch_only p p' \<and> flags_kept p p'"
  by (auto simp add: parser_on_format_def refresh_target_doc_def scratch_only_def flags_kept_def flag_simps
      dest: flag_dests split: option.splits sum.splits)

lemma timecode_scratch_only:
  "state p = REFRESH \<Longrightarrow> refresh_mode p = BUFFER \<Longrightarrow> parser_on_timecode p payload = Inr p' \<Longrightarrow>
   scratch_only p p' \<and> flags_kept p p'"
  by (auto simp add: parser_on_timecode_def refresh_target_doc_def scratch_only_def flags_kept_def flag_simps
      dest: flag_dests split: option.splits sum.splits)

lemma delete_scratch_only:
  "state p = REFRESH \<Longrightarrow> refresh_mode p = BUFFER \<Longrightarrow> parser_on_delete p = Inr p' \<Longrightarrow>
   scratch_only p p' \<and> flags_kept p p'"
  by (auto simp add: parser_on_delete_def scratch_only_def flags_kept_def flag_simps
      dest: flag_dests split: option.splits sum.splits)

lemma prevent_save_scratch_only:
  "state p = REFRESH \<Longrightarrow> refresh_mode p = BUFFER \<Longrightarrow> parser_on_prevent_save p = Inr p' \<Longrightarrow>
   scratch_only p p'"
  by (auto simp add: parser_on_prevent_save_def refresh_target_doc_def scratch_only_def Let_def
      split: option.splits sum.splits)

lemma refresh_begin_in_refresh:
  "state p = REFRESH \<Longrightarrow> on_refresh_begin p payload \<noteq> Inr p'"
  by (simp add: on_refresh_begin_def)

lemma refresh_end_state:
  "on_refresh_end p = Inr p' \<Longrightarrow> state p' = NORMAL"
  by (cases "state p'")
    (auto simp add: on_refresh_end_def reset_refresh_def Let_def
      split: if_splits option.splits prod.splits)

lemma text_scratch_only:
  "state p = REFRESH \<Longrightarrow> refresh_mode p = BUFFER \<Longrightarrow> insert_text_bytes p bs = Inr p' \<Longrightarrow>
   scratch_only p p' \<and> flags_kept p p'"
  by (auto simp add: insert_text_bytes_def scratch_only_def flags_kept_def flag_simps Let_def
      split: option.splits sum.splits)

lemma dispatch_scratch_only:
  assumes "state p = REFRESH" "refresh_mode p = BUFFER"
    and "dispatch_cmd p c payload = Inr p'" "state p' = REFRESH"
  shows "scratch_only p p' \<and> (c \<noteq> 0x4B \<longrightarrow> flags_kept p p')"
proof -
  consider "c = 0x50" | "c = 0x4E" | "c = 0x46" | "c = 0x54" | "c = 0x44" | "c = 0x4B"
    | "c = 0x52" | "c = 0x45"
    | "c \<noteq> 0x50 \<and> c \<noteq> 0x4E \<and> c \<noteq> 0x46 \<and> c \<noteq> 0x54 \<and> c \<noteq> 0x44 \<and> c \<noteq> 0x4B
        \<and> c \<noteq> 0x52 \<and> c \<noteq> 0x45"
    by blast
  then show ?thesis
  proof cases
    case 1 with assms page_scratch_only [of p payload p'] show ?thesis by (simp add: dispatch_cmd_def)
  next
    case 2 with assms line_scratch_only [of p payload p'] show ?thesis by (simp add: dispatch_cmd_def)
  next
    case 3 with assms format_scratch_only [of p payload p'] show ?thesis by (simp add: dispatch_cmd_def)
  next
    case 4 with assms timecode_scratch_only [of p payload p'] show ?thesis by (simp add: dispatch_cmd_def)
  next
    case 5 with assms delete_scratch_only [of p p'] show ?thesis by (simp add: dispatch_cmd_def)
  next
    case 6 with assms prevent_save_scratch_only [of p p'] show ?thesis by (simp add: dispatch_cmd_def)
  next
    case 7 with assms refresh_begin_in_refresh [of p payload p'] show ?thesis by (simp add: dispatch_cmd_def)
  next
    case 8 with assms refresh_end_state [of p p'] show ?thesis by (simp add: dispatch_cmd_def)
  next
    case 9 with assms show ?thesis
      by (auto simp add: dispatch_cmd_def handle_unknown_def scratch_only_def flags_kept_def)
  qed
qed

lemma scratch_only_exit_frame: "scratch_only p p' \<Longrightarrow> scratch_only p (exit_frame p')"
  by (simp add: scratch_only_def exit_frame_def)

lemma flags_kept_exit_frame: "flags_kept p p' \<Longrightarrow> flags_kept p (exit_frame p')"
  by (simp add: flags_kept_def exit_frame_def)

lemma feed_byte_scratch_only:
  assumes "state p = REFRESH" "refresh_mode p = BUFFER"
    and "feed_byte p b = Inr p'" "state p' = REFRESH"
  shows "scratch_only p p' \<and> (\<not> dispatches p b 0x4B \<longrightarrow> flags_kept p p')"
proof (cases "in_cmd p")
  case False
  show ?thesis
  proof (cases "b = STX")
    case True
    with False assms show ?thesis
      by (auto simp add: feed_byte_def enter_frame_def scratch_only_def flags_kept_def)
  next
    case nstx: False
    with False assms have "insert_text_bytes p [b] = Inr p'" by (simp add: feed_byte_def)
    from text_scratch_only [OF assms(1,2) this] show ?thesis by simp
  qed
next
  case True
  show ?thesis
  proof (cases "current_cmd p")
    case None
    with True assms show ?thesis
      by (auto simp add: feed_byte_def scratch_only_def flags_kept_def)
  next
    case (Some cmd)
    show ?thesis
    proof (cases "expected_len p")
      case None
      with True Some assms show ?thesis
        by (auto simp add: feed_byte_def scratch_only_def flags_kept_def exit_frame_def
            handle_unknown_def split: if_splits)
    next
      case len: (Some n)
      show ?thesis
      proof (cases "length (frame_buf p) < n")
        case True
        with \<open>in_cmd p\<close> Some len assms show ?thesis
          by (auto simp add: feed_byte_def scratch_only_def flags_kept_def)
      next
        case False
        with \<open>in_cmd p\<close> Some len assms obtain p'' where
          d: "dispatch_cmd p cmd (frame_buf p) = Inr p''" and e: "p' = exit_frame p''" and b: "b = ETX"
          by (auto simp add: feed_byte_def split: if_splits sum.splits)
        from e assms(4) have "state p'' = REFRESH" by (simp add: exit_frame_def)
        from dispatch_scratch_only [OF assms(1,2) d this]
        have "scratch_only p p''" and "cmd \<noteq> 0x4B \<longrightarrow> flags_kept p p''" by simp_all
        moreover have "\<not> dispatches p b 0x4B \<longrightarrow> cmd \<noteq> 0x4B"
          using \<open>in_cmd p\<close> Some len False b by (simp add: dispatches_def)
        ultimately show ?thesis
          using e by (auto intro: scratch_only_exit_frame flags_kept_exit_frame)
      qed
    qed
  qed
qed

lemma scratch_only_trans:
  "scratch_only p p1 \<Longrightarrow> scratch_only p1 p2 \<Longrightarrow> scratch_only p p2"
  unfolding scratch_only_def
  by (metis (no_types, lifting) Document.surjective Document.update_convs(7))

lemma flags_kept_trans:
  "flags_kept p p1 \<Longrightarrow> flags_kept p1 p2 \<Longrightarrow> flags_kept p p2"
  by (simp add: flags_kept_def)

lemma stays_in_refresh_state: "stays_in_refresh p bs \<Longrightarrow> state p = REFRESH"
  by (cases bs) simp_all

lemma feed_scratch_only:
  "stays_in_refresh p bs \<Longrightarrow> refresh_mode p = BUFFER \<Longrightarrow> feed p bs = Inr p' \<Longrightarrow>
   state p' = REFRESH \<and> scratch_only p p' \<and> (no_K_received p bs \<longrightarrow> flags_kept p p')"
proof (induction bs arbitrary: p)
  case Nil
  then show ?case by (simp add: scratch_only_refl flags_kept_def)
next
  case (Cons b bs)
  from Cons.prems(1) obtain p1 where
    s: "state p = REFRESH" and f: "feed_byte p b = Inr p1" and r: "stays_in_refresh p1 bs"
    by (auto split: sum.splits)
  from r have s1: "state p1 = REFRESH" by (rule stays_in_refresh_state)
  from feed_byte_scratch_only [OF s Cons.prems(2) f s1]
  have 1: "scratch_only p p1" and k1: "\<not> dispatches p b 0x4B \<longrightarrow> flags_kept p p1" by simp_all
  from 1 Cons.prems(2) have m: "refresh_mode p1 = BUFFER" by (simp add: scratch_only_def)
  from Cons.prems(3) f have "feed p1 bs = Inr p'" by simp
  from Cons.IH [OF r m this]
  have 2: "state p' = REFRESH" "scratch_only p1 p'" "no_K_received p1 bs \<longrightarrow> flags_kept p1 p'"
    by simp_all
  show ?case
    using 2 scratch_only_trans [OF 1 2(2)] k1 f
    by (auto intro: flags_kept_trans)
qed

section \<open>The cursor invariant\<close>

lemma list_insert_in_range:
  "0 \<le> i \<Longrightarrow> i \<le> int (length xs) \<Longrightarrow>
   list_insert xs i x = take (nat i) xs @ x # drop (nat i) xs"
  by (simp add: list_insert_def Let_def min_absorb1)

lemma insert_loop_in_range:
  "0 \<le> pos \<Longrightarrow> pos \<le> int (length cs) \<Longrightarrow>
   insert_loop cs pos s = (take (nat pos) cs @ s @ drop (nat pos) cs, pos + int (length s))"
proof (induction s arbitrary: cs pos)
  case Nil
  then show ?case by simp
next
  case (Cons ch s)
  let ?cs = "take (nat pos) cs @ ch # drop (nat pos) cs"
  have n: "nat (pos + 1) = Suc (nat pos)" using Cons.prems by simp
  have l: "length (take (nat pos) cs) = nat pos" using Cons.prems by simp
  have "insert_loop ?cs (pos + 1) s =
      (take (nat (pos + 1)) ?cs @ s @ drop (nat (pos + 1)) ?cs, pos + 1 + int (length s))"
    using Cons.prems by (intro Cons.IH) simp_all
  moreover have "take (nat (pos + 1)) ?cs = take (nat pos) cs @ [ch]"
    using l by (simp add: n)
  moreover have "drop (nat (pos + 1)) ?cs = drop (nat pos) cs"
    using l by (simp add: n)
  ultimately show ?case using Cons.prems by (simp add: list_insert_in_range)
qed

lemma insert_text_in_range:
  "doc_ok d \<Longrightarrow>
   insert_text d s =
     d\<lparr>chars := take (nat (insertion d)) (chars d) @ s @ drop (nat (insertion d)) (chars d),
       insertion := insertion d + int (length s)\<rparr>"
  by (cases "s = []") (simp_all add: insert_text_def doc_ok_def insert_loop_in_range)

lemma doc_ok_insert_text: "doc_ok d \<Longrightarrow> doc_ok (insert_text d s)"
  by (simp add: insert_text_in_range) (auto simp add: doc_ok_def min_def)

lemma doc_ok_set_insertion: "doc_ok (set_insertion d pos)"
  by (simp add: set_insertion_def doc_ok_def)

lemma doc_ok_delete_range: "doc_ok d \<Longrightarrow> doc_ok (delete_range d a b)"
  by (auto simp add: delete_range_def doc_ok_def Let_def)

lemma doc_ok_delete_backspace:
  "doc_ok d \<Longrightarrow> delete_backspace d lb = Inr d' \<Longrightarrow> doc_ok d'"
  by (auto simp add: delete_backspace_def doc_ok_def list_del_def Let_def split: if_splits)

lemma doc_ok_on_page: "doc_ok d \<Longrightarrow> doc_ok (on_page d x)"
  by (simp add: on_page_def doc_ok_def)

lemma doc_ok_on_line: "doc_ok d \<Longrightarrow> on_line d x = Inr d' \<Longrightarrow> doc_ok d'"
  by (auto simp add: on_line_def doc_ok_def split: list.splits)

lemma doc_ok_on_format: "doc_ok d \<Longrightarrow> on_format d x = Inr d' \<Longrightarrow> doc_ok d'"
  by (auto simp add: on_format_def doc_ok_def split: list.splits)

lemma doc_ok_on_timecode: "doc_ok d \<Longrightarrow> doc_ok (on_timecode d tc)"
  by (simp add: on_timecode_def doc_ok_def)

lemma doc_ok_on_prevent_save: "doc_ok d \<Longrightarrow> doc_ok (on_prevent_save d)"
  by (simp add: on_prevent_save_def doc_ok_def)

lemma doc_ok_new: "doc_ok new_Document"
  by (simp add: new_Document_def doc_ok_def)

lemma doc_ok_flag: "doc_ok (d\<lparr>prevent_save := x\<rparr>) = doc_ok d"
  by (simp add: doc_ok_def)

lemma cursor_ok_doc: "cursor_ok p \<Longrightarrow> doc_ok (doc p)"
  by (simp add: cursor_ok_def)

lemma cursor_ok_buf: "cursor_ok p \<Longrightarrow> refresh_buffer p = Some b \<Longrightarrow> doc_ok b"
  by (simp add: cursor_ok_def)

lemma cursor_ok_doc_update: "cursor_ok p \<Longrightarrow> doc_ok d \<Longrightarrow> cursor_ok (p\<lparr>doc := d\<rparr>)"
  by (simp add: cursor_ok_def)

lemma cursor_ok_buf_update:
  "cursor_ok p \<Longrightarrow> doc_ok b \<Longrightarrow> cursor_ok (p\<lparr>refresh_buffer := Some b\<rparr>)"
  by (simp add: cursor_ok_def)

lemma target_ok:
  "cursor_ok p \<Longrightarrow> refresh_target_doc p = Inr t \<Longrightarrow> doc_ok (get_target p t)"
  by (cases t) (auto simp add: cursor_ok_def refresh_target_doc_def split: if_splits option.splits)

lemma put_target_ok:
  "cursor_ok p \<Longrightarrow> doc_ok d \<Longrightarrow> cursor_ok (put_target p t d)"
  by (cases t) (auto simp add: cursor_ok_def split: option.splits)

lemma target_raise_ok:
  "cursor_ok p \<Longrightarrow> refresh_target_doc p = Inl (e, p') \<Longrightarrow> cursor_ok p'"
  by (auto simp add: refresh_target_doc_def split: if_splits option.splits)

lemma page_ok: "cursor_ok p \<Longrightarrow> result_ok (parser_on_page p payload)"
  by (auto simp add: parser_on_page_def result_ok_def
      intro: cursor_ok_doc_update doc_ok_on_page cursor_ok_doc target_ok put_target_ok
      dest: target_raise_ok split: sum.splits)

lemma line_ok: "cursor_ok p \<Longrightarrow> result_ok (parser_on_line p payload)"
  by (auto simp add: parser_on_line_def result_ok_def
      intro: cursor_ok_doc_update doc_ok_on_line cursor_ok_doc target_ok put_target_ok
      dest: target_raise_ok split: sum.splits)

lemma format_ok: "cursor_ok p \<Longrightarrow> result_ok (parser_on_format p payload)"
  by (auto simp add: parser_on_format_def result_ok_def
      intro: cursor_ok_doc_update doc_ok_on_format cursor_ok_doc target_ok put_target_ok
      dest: target_raise_ok split: sum.splits)

lemma timecode_ok: "cursor_ok p \<Longrightarrow> result_ok (parser_on_timecode p payload)"
  by (auto simp add: parser_on_timecode_def result_ok_def
      intro: cursor_ok_doc_update doc_ok_on_timecode cursor_ok_doc target_ok put_target_ok
      dest: target_raise_ok split: sum.splits)

lemma delete_ok: "cursor_ok p \<Longrightarrow> result_ok (parser_on_delete p)"
  by (auto simp add: parser_on_delete_def result_ok_def
      intro: cursor_ok_doc_update cursor_ok_buf_update doc_ok_delete_backspace cursor_ok_doc cursor_ok_buf
      split: sum.splits option.splits)

lemma prevent_save_ok: "cursor_ok p \<Longrightarrow> result_ok (parser_on_prevent_save p)"
  by (auto simp add: parser_on_prevent_save_def result_ok_def Let_def doc_ok_flag
      intro!: cursor_ok_doc_update doc_ok_on_prevent_save cursor_ok_doc target_ok put_target_ok
      dest: target_raise_ok split: sum.splits)

lemma text_ok: "cursor_ok p \<Longrightarrow> result_ok (insert_text_bytes p bs)"
  by (auto simp add: insert_text_bytes_def result_ok_def Let_def
      intro: cursor_ok_doc_update cursor_ok_buf_update doc_ok_insert_text cursor_ok_doc cursor_ok_buf
      split: sum.splits option.splits)

lemma cursor_ok_refresh_fields:
  "cursor_ok (p\<lparr>refresh_start_tc := a\<rparr>) = cursor_ok p"
  "cursor_ok (p\<lparr>refresh_end_tc := b\<rparr>) = cursor_ok p"
  "cursor_ok (p\<lparr>refresh_start_pos := c\<rparr>) = cursor_ok p"
  "cursor_ok (p\<lparr>refresh_end_pos := d\<rparr>) = cursor_ok p"
  "cursor_ok (p\<lparr>refresh_lower_bound := e\<rparr>) = cursor_ok p"
  "cursor_ok (p\<lparr>state := f\<rparr>) = cursor_ok p"
  "cursor_ok (p\<lparr>frame_buf := g\<rparr>) = cursor_ok p"
  "cursor_ok (p\<lparr>in_cmd := h\<rparr>) = cursor_ok p"
  "cursor_ok (p\<lparr>expected_len := i\<rparr>) = cursor_ok p"
  "cursor_ok (p\<lparr>current_cmd := j\<rparr>) = cursor_ok p"
  by (simp_all add: cursor_ok_def)

lemma cursor_ok_no_buffer:
  "cursor_ok p \<Longrightarrow> cursor_ok (p\<lparr>refresh_buffer := None\<rparr>)"
  by (simp add: cursor_ok_def)

lemma refresh_begin_ok: "cursor_ok p \<Longrightarrow> result_ok (on_refresh_begin p payload)"
  by (auto simp add: on_refresh_begin_def result_ok_def Let_def cursor_ok_refresh_fields
      intro!: cursor_ok_doc_update cursor_ok_buf_update doc_ok_set_insertion
      split: sum.splits prod.splits)

lemma refresh_end_ok: "cursor_ok p \<Longrightarrow> result_ok (on_refresh_end p)"
  by (auto simp add: on_refresh_end_def result_ok_def Let_def reset_refresh_def
      cursor_ok_refresh_fields doc_ok_flag
      intro!: cursor_ok_no_buffer cursor_ok_doc_update doc_ok_set_insertion doc_ok_insert_text
      split: sum.splits prod.splits option.splits)

lemma dispatch_ok: "cursor_ok p \<Longrightarrow> result_ok (dispatch_cmd p c payload)"
  by (simp add: dispatch_cmd_def page_ok line_ok format_ok timecode_ok delete_ok
      prevent_save_ok refresh_begin_ok refresh_end_ok handle_unknown_def)
    (simp add: result_ok_def)

lemma feed_byte_ok: "cursor_ok p \<Longrightarrow> result_ok (feed_byte p b)"
proof -
  assume ok: "cursor_ok p"
  have d: "result_ok (case dispatch_cmd p c payload of Inl e \<Rightarrow> Inl e | Inr p' \<Rightarrow> Inr (exit_frame p'))"
    for c payload
    using dispatch_ok [OF ok, of c payload]
    by (auto simp add: result_ok_def exit_frame_def cursor_ok_refresh_fields split: sum.splits)
  show ?thesis
    using ok text_ok [OF ok, of "[b]"] d
    by (auto simp add: feed_byte_def enter_frame_def exit_frame_def handle_unknown_def
        cursor_ok_refresh_fields result_ok_def [of "Inr _"] result_ok_def [of "Inl _"]
        split: option.splits)
qed

lemma feed_ok: "cursor_ok p \<Longrightarrow> result_ok (feed p bs)"
proof (induction bs arbitrary: p)
  case Nil
  then show ?case by (simp add: result_ok_def)
next
  case (Cons b bs)
  show ?case
  proof (cases "feed_byte p b")
    case (Inl e)
    with feed_byte_ok [OF Cons.prems, of b] show ?thesis by (simp add: result_ok_def)
  next
    case (Inr p')
    with feed_byte_ok [OF Cons.prems, of b] have "cursor_ok p'" by (simp add: result_ok_def)
    then have "result_ok (feed p' bs)" by (rule Cons.IH)
    with Inr show ?thesis by simp
  qed
qed

lemma init_ok: "cursor_ok (init mode)"
  by (simp add: init_def cursor_ok_def doc_ok_new)

text \<open>
  C6. A parser constructed in either mode is fed any bytes: after each of them (the
  first \<open>n\<close>, for every \<open>n\<close>), whether the call has returned or raised, the cursor of the
  main document lies in \<open>[0, length]\<close>, and so does the cursor of the scratch document
  when there is one.
\<close>

theorem cursor_invariant:
  "case feed (init mode) (take n bs) of
     Inl (e, p) \<Rightarrow> cursor_ok p
   | Inr p \<Rightarrow> cursor_ok p"
  using feed_ok [OF init_ok, of mode "take n bs"] by (simp add: result_ok_def)

section \<open>Refresh begin and end\<close>

lemma clamp_bounds: "0 \<le> L \<Longrightarrow> 0 \<le> clamp L x \<and> clamp L x \<le> L"
  by (simp add: clamp_def)

lemma resolve_bounds:
  assumes "resolve_time_range d a b = Inr (s, e)"
  shows "0 \<le> s \<and> s \<le> e \<and> e \<le> int (length (chars d))"
proof -
  have L: "0 \<le> doc_length d" by (simp add: doc_length_def)
  from assms have "(s, e) = spec_resolve (time_index d) (doc_length d) (to_frames a) (to_frames b)"
    by (simp add: resolve_time_range_refines)
  then show ?thesis
    using clamp_bounds [OF L] 
    by (auto simp add: spec_resolve_def Let_def doc_length_def [symmetric] split: if_splits)
qed

lemma frame_R: "frame 0x52 payload = Inr bs \<Longrightarrow> length payload = 8 \<and> bs = STX # 0x52 # payload @ [ETX]"
  by (auto simp add: frame_def CMD_LEN_def split: if_splits)

lemma frame_E: "frame 0x45 payload = Inr bs \<Longrightarrow> payload = [] \<and> bs = [STX, 0x45, ETX]"
  by (auto simp add: frame_def CMD_LEN_def split: if_splits)

lemma feed_frame:
  assumes "\<not> in_cmd p" "CMD_LEN c = Some n" "length payload = n"
  shows "feed p (STX # c # payload @ [ETX]) =
     (case dispatch_cmd (in_frame p c payload) c payload of
        Inl e \<Rightarrow> Inl e
      | Inr p' \<Rightarrow> Inr (exit_frame p'))"
proof -
  have "feed p (STX # c # payload @ [ETX]) =
     (case dispatch_cmd (in_frame p c payload) c payload of
        Inl e \<Rightarrow> Inl e
      | Inr p' \<Rightarrow> feed (exit_frame p') [])"
    by (rule feed_known_frame [OF assms])
  also have "\<dots> =
     (case dispatch_cmd (in_frame p c payload) c payload of
        Inl e \<Rightarrow> Inl e
      | Inr p' \<Rightarrow> Inr (exit_frame p'))"
    by (simp split: sum.splits)
  finally show ?thesis .
qed

lemma nested_refresh_raises:
  assumes "state p = REFRESH" "\<not> in_cmd p" "frame 0x52 payload = Inr r_frame"
  shows "feed p r_frame = Inl (NestedRefresh, in_frame p 0x52 payload)"
proof -
  from frame_R [OF assms(3)] have l: "length payload = 8" and r: "r_frame = STX # 0x52 # payload @ [ETX]"
    by simp_all
  have c: "CMD_LEN 0x52 = Some 8" by (simp add: CMD_LEN_def)
  have "dispatch_cmd (in_frame p 0x52 payload) 0x52 payload = Inl (NestedRefresh, in_frame p 0x52 payload)"
    using assms(1) l by (simp add: dispatch_cmd_def on_refresh_begin_def in_frame_def)
  then show ?thesis
    unfolding r using feed_frame [OF assms(2) c l] by simp
qed

lemma delete_range_then_set:
  assumes "0 \<le> s" "s \<le> e" "e \<le> int (length (chars d))"
  shows "set_insertion (delete_range d s e) s =
     d\<lparr>chars := take (nat s) (chars d) @ drop (nat e) (chars d), insertion := s\<rparr>"
proof (cases "s < e")
  case True
  with assms show ?thesis
    by (simp add: delete_range_def set_insertion_def Let_def min_absorb1 min_absorb2 max_absorb2)
next
  case False
  with assms have "e = s" by simp
  with assms show ?thesis
    by (simp add: delete_range_def set_insertion_def Let_def min_absorb1 max_absorb2)
qed

lemma feed_R_buffer:
  assumes "state p = NORMAL" "refresh_mode p = BUFFER" "\<not> in_cmd p"
    and "frame 0x52 payload = Inr r_frame"
    and "from_bytes (take 4 payload) = Inr stc" "from_bytes (drop 4 payload) = Inr etc"
    and "resolve_time_range (doc p) stc etc = Inr (s, e)"
  shows "\<exists>p1. feed p r_frame = Inr p1 \<and> state p1 = REFRESH \<and> refresh_mode p1 = BUFFER
           \<and> doc p1 = doc p \<and> refresh_start_pos p1 = Some s \<and> refresh_end_pos p1 = Some e
           \<and> refresh_buffer p1 = Some (set_insertion new_Document 0) \<and> \<not> in_cmd p1"
proof -
  from frame_R [OF assms(4)] have l: "length payload = 8" and r: "r_frame = STX # 0x52 # payload @ [ETX]"
    by simp_all
  have c: "CMD_LEN 0x52 = Some 8" by (simp add: CMD_LEN_def)
  let ?q = "in_frame p 0x52 payload"
  have "dispatch_cmd ?q 0x52 payload = on_refresh_begin ?q payload"
    by (simp add: dispatch_cmd_def)
  also have "\<dots> = Inr (?q\<lparr>refresh_start_tc := Some stc, refresh_end_tc := Some etc,
        refresh_start_pos := Some s, refresh_end_pos := Some e,
        refresh_buffer := Some (set_insertion new_Document 0), state := REFRESH\<rparr>)"
    using assms(1,2,5,6,7) l by (simp add: on_refresh_begin_def in_frame_def)
  finally show ?thesis
    unfolding r using feed_frame [OF assms(3) c l] assms(2)
    by (simp add: exit_frame_def in_frame_def)
qed

lemma feed_R_stream:
  assumes "state p = NORMAL" "refresh_mode p = STREAM" "\<not> in_cmd p"
    and "frame 0x52 payload = Inr r_frame"
    and "from_bytes (take 4 payload) = Inr stc" "from_bytes (drop 4 payload) = Inr etc"
    and "resolve_time_range (doc p) stc etc = Inr (s, e)"
  shows "\<exists>p1. feed p r_frame = Inr p1 \<and> state p1 = REFRESH \<and> refresh_mode p1 = STREAM
           \<and> doc p1 = (doc p)\<lparr>chars := take (nat s) (chars (doc p)) @ drop (nat e) (chars (doc p)),
                                insertion := s\<rparr>
           \<and> refresh_lower_bound p1 = s \<and> \<not> in_cmd p1"
proof -
  from frame_R [OF assms(4)] have l: "length payload = 8" and r: "r_frame = STX # 0x52 # payload @ [ETX]"
    by simp_all
  have c: "CMD_LEN 0x52 = Some 8" by (simp add: CMD_LEN_def)
  from resolve_bounds [OF assms(7)] have b: "0 \<le> s" "s \<le> e" "e \<le> int (length (chars (doc p)))"
    by simp_all
  let ?q = "in_frame p 0x52 payload"
  have "dispatch_cmd ?q 0x52 payload = on_refresh_begin ?q payload"
    by (simp add: dispatch_cmd_def)
  also have "\<dots> = Inr (?q\<lparr>refresh_start_tc := Some stc, refresh_end_tc := Some etc,
        refresh_start_pos := Some s, refresh_end_pos := Some e,
        doc := set_insertion (delete_range (doc p) s e) s,
        refresh_lower_bound := s, state := REFRESH\<rparr>)"
    using assms(1,2,5,6,7) l by (simp add: on_refresh_begin_def in_frame_def)
  finally show ?thesis
    unfolding r using feed_frame [OF assms(3) c l] assms(2)
    by (simp add: exit_frame_def in_frame_def delete_range_then_set [OF b])
qed

lemma feed_E_stream:
  assumes "state q = REFRESH" "refresh_mode q = STREAM" "\<not> in_cmd q"
    and "frame 0x45 payload = Inr e_frame"
  shows "\<exists>q1. feed q e_frame = Inr q1 \<and> state q1 = NORMAL
           \<and> doc q1 = (doc q)\<lparr>insertion := doc_length (doc q)\<rparr> \<and> \<not> in_cmd q1"
proof -
  from frame_E [OF assms(4)] have l: "length payload = 0" and r: "e_frame = STX # 0x45 # payload @ [ETX]"
    by simp_all
  have c: "CMD_LEN 0x45 = Some 0" by (simp add: CMD_LEN_def)
  let ?q = "in_frame q 0x45 payload"
  have "dispatch_cmd ?q 0x45 payload = on_refresh_end ?q"
    by (simp add: dispatch_cmd_def)
  also have "\<dots> = Inr (reset_refresh (?q\<lparr>doc := set_insertion (doc q) (doc_length (doc q))\<rparr>))"
    using assms(1,2) by (simp add: on_refresh_end_def in_frame_def)
  finally show ?thesis
    unfolding r using feed_frame [OF assms(3) c l]
    by (simp add: exit_frame_def in_frame_def reset_refresh_def set_insertion_def doc_length_def)
qed

lemma on_refresh_end_buffer:
  assumes "state q = REFRESH" "refresh_mode q = BUFFER"
    and "refresh_start_pos q = Some s" "refresh_end_pos q = Some e" "refresh_buffer q = Some buf"
    and "0 \<le> s" "s \<le> e" "e \<le> int (length (chars (doc q)))"
  shows "on_refresh_end q =
     Inr (reset_refresh (q\<lparr>doc := (doc q)\<lparr>chars := take (nat s) (chars (doc q)) @ chars buf @ drop (nat e) (chars (doc q)),
                                          insertion := s + int (length (chars buf)),
                                          prevent_save := prevent_save buf\<rparr>\<rparr>))"
proof -
  let ?cs = "chars (doc q)"
  let ?d2 = "(doc q)\<lparr>chars := take (nat s) ?cs @ drop (nat e) ?cs, insertion := s\<rparr>"
  have d2: "set_insertion (delete_range (doc q) s e) s = ?d2"
    by (rule delete_range_then_set [OF assms(6,7,8)])
  have ls: "length (take (nat s) ?cs) = nat s" using assms(6,7,8) by simp
  have ok: "doc_ok ?d2" using assms(6,7,8) by (simp add: doc_ok_def)
  have "insert_text ?d2 (chars buf) =
      (doc q)\<lparr>chars := take (nat s) ?cs @ chars buf @ drop (nat e) ?cs,
               insertion := s + int (length (chars buf))\<rparr>"
    using ls by (simp add: insert_text_in_range [OF ok])
  then show ?thesis
    using assms(1-5) by (simp add: on_refresh_end_def Let_def d2 doc_text_def)
qed

lemma feed_E_buffer:
  assumes "state q = REFRESH" "refresh_mode q = BUFFER" "\<not> in_cmd q"
    and "refresh_start_pos q = Some s" "refresh_end_pos q = Some e" "refresh_buffer q = Some buf"
    and "0 \<le> s" "s \<le> e" "e \<le> int (length (chars (doc q)))"
    and "frame 0x45 payload = Inr e_frame"
  shows "\<exists>q1. feed q e_frame = Inr q1 \<and> state q1 = NORMAL
           \<and> doc q1 = (doc q)\<lparr>chars := take (nat s) (chars (doc q)) @ chars buf @ drop (nat e) (chars (doc q)),
                                insertion := s + int (length (chars buf)),
                                prevent_save := prevent_save buf\<rparr>
           \<and> \<not> in_cmd q1"
proof -
  from frame_E [OF assms(10)] have l: "length payload = 0" and r: "e_frame = STX # 0x45 # payload @ [ETX]"
    by simp_all
  have c: "CMD_LEN 0x45 = Some 0" by (simp add: CMD_LEN_def)
  let ?q = "in_frame q 0x45 payload"
  have "dispatch_cmd ?q 0x45 payload = on_refresh_end ?q"
    by (simp add: dispatch_cmd_def)
  also have "\<dots> = Inr (reset_refresh (?q\<lparr>doc := (doc ?q)\<lparr>chars := take (nat s) (chars (doc ?q)) @ chars buf @ drop (nat e) (chars (doc ?q)),
                                          insertion := s + int (length (chars buf)),
                                          prevent_save := prevent_save buf\<rparr>\<rparr>))"
    using assms(1,2,4-9) by (intro on_refresh_end_buffer) (simp_all add: in_frame_def)
  finally show ?thesis
    unfolding r using feed_frame [OF assms(3) c l]
    by (simp add: exit_frame_def in_frame_def reset_refresh_def)
qed

section \<open>The examples\<close>

text \<open>
  The concrete inputs evaluated on the model. The example parser is the one a new parser
  becomes on the bytes of scenario 3 of the specification (\<open>scenario_build_ex_doc\<close>).
\<close>

lemmas ex_defs = ex_payload_def ex_R_def ex_E_def ex_refresh_def ex_parser_def ex_doc_def
  init_def new_Document_def

lemma ex_frame_R: "frame 0x52 ex_payload = Inr ex_R"
  by (simp add: frame_def CMD_LEN_def STX_def ETX_def ex_defs)

lemma ex_frame_E: "frame 0x45 [] = Inr ex_E"
  by (simp add: frame_def CMD_LEN_def STX_def ETX_def ex_defs)

lemma ex_from_bytes:
  "from_bytes (take 4 ex_payload) = Inr \<lparr>hh = 0, mm = 0, ss = 0, ff = 0\<rparr>"
  "from_bytes (drop 4 ex_payload) = Inr \<lparr>hh = 0, mm = 0, ss = 1, ff = 0\<rparr>"
  by (simp_all add: from_bytes_def ex_defs)

lemma ex_resolve:
  "resolve_time_range ex_doc \<lparr>hh = 0, mm = 0, ss = 0, ff = 0\<rparr> \<lparr>hh = 0, mm = 0, ss = 1, ff = 0\<rparr>
     = Inr (2, 4)"
  by code_simp

lemma ex_feed_R:
  "feed (ex_parser BUFFER) ex_R = Inr (ex_refresh BUFFER)"
  "feed (ex_parser STREAM) ex_R = Inr (ex_refresh STREAM)"
  by code_simp+

text \<open>
  The scenarios of the specification that the claims do not use, run on the model: plain
  text, a timecode between two pieces of text, an unknown command, and the document
  \<open>ex_doc\<close> as the bytes that build it.
\<close>

lemma scenario_plain_text:
  "feed (init BUFFER) [72, 69, 76, 76, 79]
     = Inr ((init BUFFER)\<lparr>doc := new_Document\<lparr>chars := [72, 69, 76, 76, 79], insertion := 5\<rparr>\<rparr>)"
  by code_simp

lemma scenario_timecode:
  "feed (init BUFFER) [65, 66, 0x02, 0x54, 0, 0, 1, 0, 0x03, 67, 68]
     = Inr ((init BUFFER)\<lparr>doc := new_Document\<lparr>chars := [65, 66, 67, 68], insertion := 4,
                                                 time_index := [(30, 2)]\<rparr>\<rparr>)"
  by code_simp

lemma scenario_unknown_command:
  "feed (init BUFFER) [0x02, 0x5A, 0x10, 0x10, 0x03, 72, 73]
     = Inr ((init BUFFER)\<lparr>doc := new_Document\<lparr>chars := [72, 73], insertion := 2\<rparr>\<rparr>)"
  by code_simp

lemma scenario_build_ex_doc:
  "feed (init mode)
     [65, 65, 0x02, 0x54, 0, 0, 0, 0, 0x03, 66, 66, 0x02, 0x54, 0, 0, 1, 0, 0x03, 67, 67]
     = Inr (ex_parser mode)"
  by (cases mode; hypsubst; code_simp)

lemma scenario_malformed_frame:
  "feed (init BUFFER) [0x02, 0x4E, 1, 65]
     = Inl (MalformedFrame 0x4E,
            (init BUFFER)\<lparr>in_cmd := True, current_cmd := Some 0x4E, expected_len := Some 1,
                            frame_buf := [1]\<rparr>)"
  by code_simp

lemma scenario_stream_backspace:
  "feed (ex_refresh STREAM) ([0x02, 0x44, 0x03] @ [88])
     = Inr ((ex_refresh STREAM)\<lparr>doc := ex_doc\<lparr>chars := [65, 65, 88, 67, 67], insertion := 3\<rparr>\<rparr>)"
  by code_simp

section \<open>Nested refresh\<close>

text \<open>
  C5. A parser in REFRESH with no frame open is fed a complete R frame: \<^verbatim>\<open>feed\<close> raises
  the nested-refresh error, and the parser it leaves behind differs from the one before
  the frame in the frame-parse state only (the frame is still open, with the command and
  its payload read). The main document, the scratch document and the refresh state are
  the same.
\<close>

theorem nested_refresh_rejected:
  assumes "state p = REFRESH" "\<not> in_cmd p" "frame 0x52 payload = Inr r_frame"
  shows "\<exists>p'. feed p r_frame = Inl (NestedRefresh, p')
           \<and> p' = p\<lparr>in_cmd := True, current_cmd := Some 0x52, expected_len := Some 8,
                     frame_buf := payload\<rparr>
           \<and> doc p' = doc p \<and> refresh_buffer p' = refresh_buffer p \<and> state p' = REFRESH"
  using nested_refresh_raises [OF assms] assms(1)
  by (simp add: in_frame_def CMD_LEN_def)

text \<open>The theorem at the example parser after its R; the same holds of two R frames in one call.\<close>

theorem nested_refresh_rejected_witness:
  "state (ex_refresh BUFFER) = REFRESH \<and> \<not> in_cmd (ex_refresh BUFFER)
   \<and> frame 0x52 ex_payload = Inr ex_R
   \<and> feed (ex_refresh BUFFER) ex_R =
       Inl (NestedRefresh,
            (ex_refresh BUFFER)\<lparr>in_cmd := True, current_cmd := Some 0x52, expected_len := Some 8,
                                  frame_buf := ex_payload\<rparr>)
   \<and> feed (ex_parser BUFFER) (ex_R @ ex_R) =
       Inl (NestedRefresh,
            (ex_refresh BUFFER)\<lparr>in_cmd := True, current_cmd := Some 0x52, expected_len := Some 8,
                                  frame_buf := ex_payload\<rparr>)"
proof -
  have 1: "state (ex_refresh BUFFER) = REFRESH" by (simp add: ex_defs)
  have 2: "\<not> in_cmd (ex_refresh BUFFER)" by (simp add: ex_defs)
  from nested_refresh_rejected [OF 1 2 ex_frame_R]
  have 3: "feed (ex_refresh BUFFER) ex_R =
       Inl (NestedRefresh,
            (ex_refresh BUFFER)\<lparr>in_cmd := True, current_cmd := Some 0x52, expected_len := Some 8,
                                  frame_buf := ex_payload\<rparr>)"
    by simp
  have 4: "feed (ex_parser BUFFER) (ex_R @ ex_R) = feed (ex_refresh BUFFER) ex_R"
    by (simp add: feed_append ex_feed_R)
  show ?thesis using 1 2 3 4 ex_frame_R by simp
qed

section \<open>Streaming refresh\<close>

text \<open>
  C3. In STREAM mode, a valid R frame fed to a parser in NORMAL (no frame open) that
  resolves to \<open>(start_pos, end_pos)\<close> deletes the range \<open>[start_pos, end_pos)\<close> of the main
  document at once, leaves the cursor at \<open>start_pos\<close> and sets the lower bound of
  deletions to \<open>start_pos\<close>; the parser is then in REFRESH. An E frame fed to a parser
  in a streaming refresh sets the cursor to the current length of the main document and
  returns the parser to NORMAL.
\<close>

theorem stream_refresh:
  "(state p = NORMAL \<and> refresh_mode p = STREAM \<and> \<not> in_cmd p
      \<and> frame 0x52 payload = Inr r_frame
      \<and> from_bytes (take 4 payload) = Inr start_tc \<and> from_bytes (drop 4 payload) = Inr end_tc
      \<and> resolve_time_range (doc p) start_tc end_tc = Inr (start_pos, end_pos)
    \<longrightarrow> (\<exists>p1. feed p r_frame = Inr p1
           \<and> doc p1 = (doc p)\<lparr>chars := take (nat start_pos) (chars (doc p))
                                        @ drop (nat end_pos) (chars (doc p)),
                                insertion := start_pos\<rparr>
           \<and> refresh_lower_bound p1 = start_pos \<and> state p1 = REFRESH))
   \<and> (state q = REFRESH \<and> refresh_mode q = STREAM \<and> \<not> in_cmd q
      \<and> frame 0x45 [] = Inr e_frame
    \<longrightarrow> (\<exists>q1. feed q e_frame = Inr q1
           \<and> doc q1 = (doc q)\<lparr>insertion := doc_length (doc q)\<rparr>
           \<and> state q1 = NORMAL))"
proof (intro conjI impI)
  assume a: "state p = NORMAL \<and> refresh_mode p = STREAM \<and> \<not> in_cmd p
      \<and> frame 0x52 payload = Inr r_frame
      \<and> from_bytes (take 4 payload) = Inr start_tc \<and> from_bytes (drop 4 payload) = Inr end_tc
      \<and> resolve_time_range (doc p) start_tc end_tc = Inr (start_pos, end_pos)"
  then have "\<exists>p1. feed p r_frame = Inr p1 \<and> state p1 = REFRESH \<and> refresh_mode p1 = STREAM
           \<and> doc p1 = (doc p)\<lparr>chars := take (nat start_pos) (chars (doc p))
                                        @ drop (nat end_pos) (chars (doc p)),
                                insertion := start_pos\<rparr>
           \<and> refresh_lower_bound p1 = start_pos \<and> \<not> in_cmd p1"
    by (intro feed_R_stream [where payload = payload and stc = start_tc and etc = end_tc]) simp_all
  then show "\<exists>p1. feed p r_frame = Inr p1
           \<and> doc p1 = (doc p)\<lparr>chars := take (nat start_pos) (chars (doc p))
                                        @ drop (nat end_pos) (chars (doc p)),
                                insertion := start_pos\<rparr>
           \<and> refresh_lower_bound p1 = start_pos \<and> state p1 = REFRESH"
    by blast
next
  assume "state q = REFRESH \<and> refresh_mode q = STREAM \<and> \<not> in_cmd q
      \<and> frame 0x45 [] = Inr e_frame"
  then have "\<exists>q1. feed q e_frame = Inr q1 \<and> state q1 = NORMAL
           \<and> doc q1 = (doc q)\<lparr>insertion := doc_length (doc q)\<rparr> \<and> \<not> in_cmd q1"
    by (intro feed_E_stream [where payload = "[]"]) simp_all
  then show "\<exists>q1. feed q e_frame = Inr q1
           \<and> doc q1 = (doc q)\<lparr>insertion := doc_length (doc q)\<rparr>
           \<and> state q1 = NORMAL"
    by blast
qed

text \<open>Scenario 4 of the specification: \<open>AABBCC\<close> becomes \<open>AACC\<close> with the cursor at 2.\<close>

theorem stream_refresh_witness:
  "state (ex_parser STREAM) = NORMAL \<and> refresh_mode (ex_parser STREAM) = STREAM
   \<and> \<not> in_cmd (ex_parser STREAM) \<and> frame 0x52 ex_payload = Inr ex_R
   \<and> resolve_time_range (doc (ex_parser STREAM))
         \<lparr>hh = 0, mm = 0, ss = 0, ff = 0\<rparr> \<lparr>hh = 0, mm = 0, ss = 1, ff = 0\<rparr> = Inr (2, 4)
   \<and> (\<exists>p1. feed (ex_parser STREAM) ex_R = Inr p1
         \<and> chars (doc p1) = [65, 65, 67, 67] \<and> insertion (doc p1) = 2
         \<and> refresh_lower_bound p1 = 2 \<and> state p1 = REFRESH)
   \<and> state (ex_refresh STREAM) = REFRESH \<and> refresh_mode (ex_refresh STREAM) = STREAM
   \<and> \<not> in_cmd (ex_refresh STREAM) \<and> frame 0x45 [] = Inr ex_E
   \<and> (\<exists>q1. feed (ex_refresh STREAM) ex_E = Inr q1
         \<and> chars (doc q1) = [65, 65, 67, 67] \<and> insertion (doc q1) = 4 \<and> state q1 = NORMAL)"
proof -
  have h1: "state (ex_parser STREAM) = NORMAL \<and> refresh_mode (ex_parser STREAM) = STREAM
      \<and> \<not> in_cmd (ex_parser STREAM)"
    by (simp add: ex_parser_def init_def)
  have h2: "resolve_time_range (doc (ex_parser STREAM))
         \<lparr>hh = 0, mm = 0, ss = 0, ff = 0\<rparr> \<lparr>hh = 0, mm = 0, ss = 1, ff = 0\<rparr> = Inr (2, 4)"
    by (simp add: ex_parser_def ex_resolve)
  have h3: "state (ex_refresh STREAM) = REFRESH \<and> refresh_mode (ex_refresh STREAM) = STREAM
      \<and> \<not> in_cmd (ex_refresh STREAM)"
    by (simp add: ex_refresh_def ex_parser_def init_def)
  note T = stream_refresh [of "ex_parser STREAM" ex_payload ex_R
      "\<lparr>hh = 0, mm = 0, ss = 0, ff = 0\<rparr>" "\<lparr>hh = 0, mm = 0, ss = 1, ff = 0\<rparr>" 2 4
      "ex_refresh STREAM" ex_E]
  from T h1 h2 ex_frame_R ex_from_bytes
  have c1: "\<exists>p1. feed (ex_parser STREAM) ex_R = Inr p1
         \<and> chars (doc p1) = [65, 65, 67, 67] \<and> insertion (doc p1) = 2
         \<and> refresh_lower_bound p1 = 2 \<and> state p1 = REFRESH"
    by (auto simp add: ex_parser_def ex_doc_def new_Document_def)
  from T h3 ex_frame_E
  have c2: "\<exists>q1. feed (ex_refresh STREAM) ex_E = Inr q1
         \<and> chars (doc q1) = [65, 65, 67, 67] \<and> insertion (doc q1) = 4 \<and> state q1 = NORMAL"
    by (auto simp add: ex_refresh_def ex_parser_def ex_doc_def new_Document_def doc_length_def)
  show ?thesis using h1 h2 h3 c1 c2 ex_frame_R ex_frame_E by simp
qed

lemma ex_feed_mid:
  "stays_in_refresh (ex_refresh BUFFER) ex_mid"
  "no_K_received (ex_refresh BUFFER) ex_mid"
  "feed (ex_refresh BUFFER) ex_mid = Inr ex_filled"
  by code_simp+

lemma flag_update_fields:
  "d' = d\<lparr>prevent_save := x\<rparr> \<Longrightarrow>
   chars d' = chars d \<and> insertion d' = insertion d \<and> time_index d' = time_index d
   \<and> current_page d' = current_page d \<and> current_line d' = current_line d
   \<and> current_format d' = current_format d"
  by simp

section \<open>Buffered refresh\<close>

text \<open>
  C2. In BUFFER mode, a parser in NORMAL (no frame open) is fed a valid R frame that
  resolves to \<open>(start_pos, end_pos)\<close>, then bytes that raise nothing and keep it in
  REFRESH, ending outside a frame with scratch text \<open>X\<close>, then an E frame. The
  characters of the main document are untouched until the E, and after it they are
  \<open>old[0:start_pos] @ X @ old[end_pos:]\<close>; so the length is the old one, minus
  \<open>end_pos - start_pos\<close>, plus the length of \<open>X\<close>. Feeding the three parts in one call
  gives the same parser.
\<close>

theorem buffer_refresh_atomic_replacement:
  assumes "state p = NORMAL" "refresh_mode p = BUFFER" "\<not> in_cmd p"
    and "frame 0x52 payload = Inr r_frame"
    and "from_bytes (take 4 payload) = Inr start_tc" "from_bytes (drop 4 payload) = Inr end_tc"
    and "resolve_time_range (doc p) start_tc end_tc = Inr (start_pos, end_pos)"
    and "feed p r_frame = Inr p1"
    and "stays_in_refresh p1 mid" "feed p1 mid = Inr p2" "\<not> in_cmd p2"
    and "refresh_buffer p2 = Some scratch"
    and "frame 0x45 [] = Inr e_frame"
  shows "\<exists>p3. feed p2 e_frame = Inr p3 \<and> feed p (r_frame @ mid @ e_frame) = Inr p3
           \<and> chars (doc p2) = chars (doc p)
           \<and> chars (doc p3) = take (nat start_pos) (chars (doc p)) @ doc_text scratch
                                  @ drop (nat end_pos) (chars (doc p))
           \<and> doc_length (doc p3)
                = doc_length (doc p) - (end_pos - start_pos) + int (length (doc_text scratch))
           \<and> state p3 = NORMAL"
proof -
  from feed_R_buffer [OF assms(1-7)] assms(8)
  have p1: "state p1 = REFRESH" "refresh_mode p1 = BUFFER" "doc p1 = doc p"
    "refresh_start_pos p1 = Some start_pos" "refresh_end_pos p1 = Some end_pos"
    by auto
  from feed_scratch_only [OF assms(9) p1(2) assms(10)]
  have p2: "state p2 = REFRESH" "scratch_only p1 p2" by simp_all
  from p2(2) p1 have q: "refresh_mode p2 = BUFFER" "refresh_start_pos p2 = Some start_pos"
    "refresh_end_pos p2 = Some end_pos"
    by (simp_all add: scratch_only_def)
  from p2(2) p1(3) have d: "doc p2 = (doc p)\<lparr>prevent_save := prevent_save (doc p2)\<rparr>"
    by (simp add: scratch_only_def)
  from flag_update_fields [OF d] have c: "chars (doc p2) = chars (doc p)"
    by simp
  from resolve_bounds [OF assms(7)]
  have b: "0 \<le> start_pos" "start_pos \<le> end_pos" "end_pos \<le> int (length (chars (doc p2)))"
    by (simp_all add: c)
  from feed_E_buffer [OF p2(1) q(1) assms(11) q(2,3) assms(12) b assms(13)]
  obtain p3 where e: "feed p2 e_frame = Inr p3" "state p3 = NORMAL"
    "doc p3 = (doc p2)\<lparr>chars := take (nat start_pos) (chars (doc p2)) @ chars scratch
                                    @ drop (nat end_pos) (chars (doc p2)),
                          insertion := start_pos + int (length (chars scratch)),
                          prevent_save := prevent_save scratch\<rparr>"
    by blast
  have f: "feed p (r_frame @ mid @ e_frame) = Inr p3"
    by (simp add: feed_append assms(8,10) e(1))
  from b have "int (length (take (nat start_pos) (chars (doc p)) @ chars scratch
                                    @ drop (nat end_pos) (chars (doc p))))
      = int (length (chars (doc p))) - (end_pos - start_pos) + int (length (chars scratch))"
    by (simp add: c)
  with e f c show ?thesis
    by (simp add: doc_text_def doc_length_def)
qed

text \<open>Scenario 3 of the specification: \<open>AABBCC\<close> becomes \<open>AAXYZCC\<close>.\<close>

theorem buffer_refresh_atomic_replacement_witness:
  "state (ex_parser BUFFER) = NORMAL \<and> refresh_mode (ex_parser BUFFER) = BUFFER
   \<and> \<not> in_cmd (ex_parser BUFFER) \<and> frame 0x52 ex_payload = Inr ex_R
   \<and> resolve_time_range (doc (ex_parser BUFFER))
         \<lparr>hh = 0, mm = 0, ss = 0, ff = 0\<rparr> \<lparr>hh = 0, mm = 0, ss = 1, ff = 0\<rparr> = Inr (2, 4)
   \<and> feed (ex_parser BUFFER) ex_R = Inr (ex_refresh BUFFER)
   \<and> stays_in_refresh (ex_refresh BUFFER) ex_mid
   \<and> feed (ex_refresh BUFFER) ex_mid = Inr ex_filled \<and> \<not> in_cmd ex_filled
   \<and> refresh_buffer ex_filled = Some (new_Document\<lparr>chars := [88, 89, 90], insertion := 3\<rparr>)
   \<and> frame 0x45 [] = Inr ex_E
   \<and> (\<exists>p3. feed (ex_parser BUFFER) (ex_R @ ex_mid @ ex_E) = Inr p3
         \<and> chars (doc p3) = [65, 65, 88, 89, 90, 67, 67] \<and> doc_length (doc p3) = 7
         \<and> state p3 = NORMAL)"
proof -
  have h1: "state (ex_parser BUFFER) = NORMAL" "refresh_mode (ex_parser BUFFER) = BUFFER"
    "\<not> in_cmd (ex_parser BUFFER)"
    by (simp_all add: ex_parser_def init_def)
  have h2: "resolve_time_range (doc (ex_parser BUFFER))
         \<lparr>hh = 0, mm = 0, ss = 0, ff = 0\<rparr> \<lparr>hh = 0, mm = 0, ss = 1, ff = 0\<rparr> = Inr (2, 4)"
    by (simp add: ex_parser_def ex_resolve)
  have h3: "\<not> in_cmd ex_filled"
    "refresh_buffer ex_filled = Some (new_Document\<lparr>chars := [88, 89, 90], insertion := 3\<rparr>)"
    by (simp_all add: ex_filled_def ex_refresh_def ex_parser_def init_def)
  from buffer_refresh_atomic_replacement
    [OF h1 ex_frame_R ex_from_bytes h2 ex_feed_R(1) ex_feed_mid(1,3) h3 ex_frame_E]
  have c: "\<exists>p3. feed (ex_parser BUFFER) (ex_R @ ex_mid @ ex_E) = Inr p3
         \<and> chars (doc p3) = [65, 65, 88, 89, 90, 67, 67] \<and> doc_length (doc p3) = 7
         \<and> state p3 = NORMAL"
    by (auto simp add: ex_parser_def ex_doc_def new_Document_def doc_text_def doc_length_def)
  show ?thesis
    using h1 h2 h3 c ex_frame_R ex_frame_E ex_feed_R(1) ex_feed_mid(1,3) by simp
qed

text \<open>
  C10. A byte fed to a parser in a buffered refresh that raises nothing and leaves the
  parser in REFRESH (any byte before the one that completes the E) changes neither the
  characters, the cursor, the time index nor the latched page, line and format of the
  main document: the main document after it is the one before, up to its \<open>prevent_save\<close>
  flag, and that flag changes only when the byte completes a K frame.
\<close>

theorem buffer_refresh_frame:
  assumes "state p = REFRESH" "refresh_mode p = BUFFER"
    and "feed_byte p b = Inr p'" "state p' = REFRESH"
  shows "chars (doc p') = chars (doc p) \<and> insertion (doc p') = insertion (doc p)
     \<and> time_index (doc p') = time_index (doc p)
     \<and> current_page (doc p') = current_page (doc p)
     \<and> current_line (doc p') = current_line (doc p)
     \<and> current_format (doc p') = current_format (doc p)
     \<and> doc p' = (doc p)\<lparr>prevent_save := prevent_save (doc p')\<rparr>
     \<and> (prevent_save (doc p') \<noteq> prevent_save (doc p) \<longrightarrow> dispatches p b 0x4B)"
proof -
  from feed_byte_scratch_only [OF assms]
  have s: "scratch_only p p'" and k: "\<not> dispatches p b 0x4B \<longrightarrow> flags_kept p p'"
    by simp_all
  from s have d: "doc p' = (doc p)\<lparr>prevent_save := prevent_save (doc p')\<rparr>"
    by (simp add: scratch_only_def)
  from flag_update_fields [OF d] d k show ?thesis
    by (simp add: flags_kept_def) blast
qed

text \<open>The theorem at the text byte \<open>X\<close> after the R of the example.\<close>

theorem buffer_refresh_frame_witness:
  "state (ex_refresh BUFFER) = REFRESH \<and> refresh_mode (ex_refresh BUFFER) = BUFFER
   \<and> feed_byte (ex_refresh BUFFER) 88
       = Inr ((ex_refresh BUFFER)\<lparr>refresh_buffer := Some (new_Document\<lparr>chars := [88], insertion := 1\<rparr>)\<rparr>)
   \<and> doc ((ex_refresh BUFFER)\<lparr>refresh_buffer := Some (new_Document\<lparr>chars := [88], insertion := 1\<rparr>)\<rparr>)
       = doc (ex_refresh BUFFER)
   \<and> chars (doc (ex_refresh BUFFER)) = [65, 65, 66, 66, 67, 67]"
proof -
  let ?p' = "(ex_refresh BUFFER)\<lparr>refresh_buffer := Some (new_Document\<lparr>chars := [88], insertion := 1\<rparr>)\<rparr>"
  have h: "state (ex_refresh BUFFER) = REFRESH" "refresh_mode (ex_refresh BUFFER) = BUFFER"
    by (simp_all add: ex_refresh_def ex_parser_def init_def)
  have f: "feed_byte (ex_refresh BUFFER) 88 = Inr ?p'" by code_simp
  have s: "state ?p' = REFRESH" by (simp add: h)
  from buffer_refresh_frame [OF h f s]
  have "chars (doc ?p') = chars (doc (ex_refresh BUFFER))" by simp
  moreover have "chars (doc (ex_refresh BUFFER)) = [65, 65, 66, 66, 67, 67]"
    by (simp add: ex_refresh_def ex_parser_def ex_doc_def)
  ultimately show ?thesis using h f by simp
qed

lemma from_bytes_total: "length b = 4 \<Longrightarrow> \<exists>tc. from_bytes b = Inr tc"
  by (simp add: from_bytes_def)

lemma frame_K: "frame 0x4B payload = Inr bs \<Longrightarrow> payload = [] \<and> bs = [STX, 0x4B, ETX]"
  by (auto simp add: frame_def CMD_LEN_def split: if_splits)

lemma feed_K_refresh:
  assumes "state p = REFRESH" "\<not> in_cmd p" "active_target p = Some d"
    and "frame 0x4B payload = Inr k_frame"
  shows "\<exists>p'. feed p k_frame = Inr p' \<and> active_target p' = Some (d\<lparr>prevent_save := True\<rparr>)
           \<and> doc p' = (doc p)\<lparr>prevent_save := True\<rparr> \<and> state p' = REFRESH"
proof -
  from frame_K [OF assms(4)] have l: "length payload = 0" and r: "k_frame = STX # 0x4B # payload @ [ETX]"
    by simp_all
  have c: "CMD_LEN 0x4B = Some 0" by (simp add: CMD_LEN_def)
  let ?q = "in_frame p 0x4B payload"
  have "dispatch_cmd ?q 0x4B payload = parser_on_prevent_save ?q"
    by (simp add: dispatch_cmd_def)
  also have "\<dots> =
      Inr (if refresh_mode p = BUFFER then
             ?q\<lparr>refresh_buffer := Some (d\<lparr>prevent_save := True\<rparr>),
                doc := (doc p)\<lparr>prevent_save := True\<rparr>\<rparr>
           else ?q\<lparr>doc := (doc p)\<lparr>prevent_save := True\<rparr>\<rparr>)"
    using assms(1,3)
    by (auto simp add: parser_on_prevent_save_def refresh_target_doc_def in_frame_def
        active_target_def on_prevent_save_def Let_def)
  finally show ?thesis
    unfolding r using feed_frame [OF assms(2) c l] assms(1,3)
    by (auto simp add: exit_frame_def in_frame_def active_target_def)
qed

lemma feed_E_buffer_flag:
  assumes "state q = REFRESH" "refresh_mode q = BUFFER" "\<not> in_cmd q"
    and "refresh_buffer q = Some buf" "frame 0x45 payload = Inr e_frame"
    and "feed q e_frame = Inr q1"
  shows "prevent_save (doc q1) = prevent_save buf"
proof -
  from frame_E [OF assms(5)] have l: "length payload = 0" and r: "e_frame = STX # 0x45 # payload @ [ETX]"
    by simp_all
  have c: "CMD_LEN 0x45 = Some 0" by (simp add: CMD_LEN_def)
  let ?q = "in_frame q 0x45 payload"
  from assms(6) feed_frame [OF assms(3) c l] obtain q' where
    d: "dispatch_cmd ?q 0x45 payload = Inr q'" and e: "q1 = exit_frame q'"
    unfolding r by (auto split: sum.splits)
  from d have "on_refresh_end ?q = Inr q'" by (simp add: dispatch_cmd_def)
  with assms(1,2,4) have "prevent_save (doc q') = prevent_save buf"
    by (auto simp add: on_refresh_end_def in_frame_def reset_refresh_def Let_def
        split: option.splits)
  with e show ?thesis by (simp add: exit_frame_def)
qed

section \<open>Prevent-save\<close>

text \<open>
  C9. A K frame fed in REFRESH sets \<open>prevent_save\<close> on the active target and sets the flag
  of the main document in the same step. The E of a buffered refresh assigns the flag
  of the scratch document to the main document. So when the main flag is set before the
  R and no K is received during the refresh, the main flag is still set just before the E
  and is false after it.
\<close>

theorem prevent_save_semantics:
  "(state p = REFRESH \<and> \<not> in_cmd p \<and> active_target p = Some d
      \<and> frame 0x4B [] = Inr k_frame
    \<longrightarrow> (\<exists>p'. feed p k_frame = Inr p'
           \<and> active_target p' = Some (d\<lparr>prevent_save := True\<rparr>)
           \<and> doc p' = (doc p)\<lparr>prevent_save := True\<rparr>))
   \<and> (state q = REFRESH \<and> refresh_mode q = BUFFER \<and> \<not> in_cmd q
      \<and> refresh_buffer q = Some buf \<and> frame 0x45 [] = Inr e_frame
      \<and> feed q e_frame = Inr q1
    \<longrightarrow> prevent_save (doc q1) = prevent_save buf)
   \<and> (state r = NORMAL \<and> refresh_mode r = BUFFER \<and> \<not> in_cmd r
      \<and> prevent_save (doc r)
      \<and> frame 0x52 payload = Inr r_frame \<and> feed r r_frame = Inr r1
      \<and> stays_in_refresh r1 mid \<and> no_K_received r1 mid
      \<and> feed r1 mid = Inr r2 \<and> \<not> in_cmd r2
      \<and> frame 0x45 [] = Inr e_frame
    \<longrightarrow> prevent_save (doc r2)
        \<and> (\<exists>r3. feed r2 e_frame = Inr r3 \<and> \<not> prevent_save (doc r3)))"
proof -
  have A: "state p = REFRESH \<and> \<not> in_cmd p \<and> active_target p = Some d
      \<and> frame 0x4B [] = Inr k_frame
    \<longrightarrow> (\<exists>p'. feed p k_frame = Inr p'
           \<and> active_target p' = Some (d\<lparr>prevent_save := True\<rparr>)
           \<and> doc p' = (doc p)\<lparr>prevent_save := True\<rparr>)"
  proof
  assume "state p = REFRESH \<and> \<not> in_cmd p \<and> active_target p = Some d
      \<and> frame 0x4B [] = Inr k_frame"
  then have "\<exists>p'. feed p k_frame = Inr p' \<and> active_target p' = Some (d\<lparr>prevent_save := True\<rparr>)
           \<and> doc p' = (doc p)\<lparr>prevent_save := True\<rparr> \<and> state p' = REFRESH"
    by (intro feed_K_refresh [where payload = "[]"]) simp_all
  then show "\<exists>p'. feed p k_frame = Inr p'
           \<and> active_target p' = Some (d\<lparr>prevent_save := True\<rparr>)
           \<and> doc p' = (doc p)\<lparr>prevent_save := True\<rparr>"
    by blast
  qed
  have B: "state q = REFRESH \<and> refresh_mode q = BUFFER \<and> \<not> in_cmd q
      \<and> refresh_buffer q = Some buf \<and> frame 0x45 [] = Inr e_frame
      \<and> feed q e_frame = Inr q1
    \<longrightarrow> prevent_save (doc q1) = prevent_save buf"
  proof
  assume "state q = REFRESH \<and> refresh_mode q = BUFFER \<and> \<not> in_cmd q
      \<and> refresh_buffer q = Some buf \<and> frame 0x45 [] = Inr e_frame
      \<and> feed q e_frame = Inr q1"
  then show "prevent_save (doc q1) = prevent_save buf"
    by (intro feed_E_buffer_flag [where q = q and payload = "[]" and e_frame = e_frame]) simp_all
  qed
  have C: "state r = NORMAL \<and> refresh_mode r = BUFFER \<and> \<not> in_cmd r
      \<and> prevent_save (doc r)
      \<and> frame 0x52 payload = Inr r_frame \<and> feed r r_frame = Inr r1
      \<and> stays_in_refresh r1 mid \<and> no_K_received r1 mid
      \<and> feed r1 mid = Inr r2 \<and> \<not> in_cmd r2
      \<and> frame 0x45 [] = Inr e_frame
    \<longrightarrow> prevent_save (doc r2)
        \<and> (\<exists>r3. feed r2 e_frame = Inr r3 \<and> \<not> prevent_save (doc r3))"
  proof
  assume a: "state r = NORMAL \<and> refresh_mode r = BUFFER \<and> \<not> in_cmd r
      \<and> prevent_save (doc r)
      \<and> frame 0x52 payload = Inr r_frame \<and> feed r r_frame = Inr r1
      \<and> stays_in_refresh r1 mid \<and> no_K_received r1 mid
      \<and> feed r1 mid = Inr r2 \<and> \<not> in_cmd r2
      \<and> frame 0x45 [] = Inr e_frame"
  from a frame_R have l: "length payload = 8" by blast
  from l obtain stc where stc: "from_bytes (take 4 payload) = Inr stc"
    using from_bytes_total [of "take 4 payload"] by auto
  from l obtain etc where etc: "from_bytes (drop 4 payload) = Inr etc"
    using from_bytes_total [of "drop 4 payload"] by auto
  obtain s e where se: "resolve_time_range (doc r) stc etc = Inr (s, e)"
    using resolve_time_range_refines [of "doc r" stc etc] by (cases "spec_resolve (time_index (doc r)) (doc_length (doc r)) (to_frames stc) (to_frames etc)") simp
  from a have a1: "state r = NORMAL" "refresh_mode r = BUFFER" "\<not> in_cmd r"
    "frame 0x52 payload = Inr r_frame" by simp_all
  from feed_R_buffer [OF a1 stc etc se] a
  have r1: "state r1 = REFRESH" "refresh_mode r1 = BUFFER" "doc r1 = doc r"
    "refresh_start_pos r1 = Some s" "refresh_end_pos r1 = Some e"
    "refresh_buffer r1 = Some (set_insertion new_Document 0)"
    by auto
  from a have a2: "stays_in_refresh r1 mid" "feed r1 mid = Inr r2" "no_K_received r1 mid"
    "\<not> in_cmd r2" "frame 0x45 [] = Inr e_frame" "prevent_save (doc r)"
    by simp_all
  from feed_scratch_only [OF a2(1) r1(2) a2(2)] a2(3)
  have r2: "state r2 = REFRESH" "scratch_only r1 r2" "flags_kept r1 r2" by simp_all
  from r2(2) r1 have q: "refresh_mode r2 = BUFFER" "refresh_start_pos r2 = Some s"
    "refresh_end_pos r2 = Some e" "doc r2 = (doc r)\<lparr>prevent_save := prevent_save (doc r2)\<rparr>"
    by (simp_all add: scratch_only_def)
  from r2(3) r1(3,6) a2(6) have k: "prevent_save (doc r2)"
    and "map_option prevent_save (refresh_buffer r2) = Some False"
    by (simp_all add: flags_kept_def set_insertion_def new_Document_def)
  then obtain buf2 where b2: "refresh_buffer r2 = Some buf2" "\<not> prevent_save buf2"
    by auto
  from flag_update_fields [OF q(4)] have c: "chars (doc r2) = chars (doc r)" by simp
  from resolve_bounds [OF se]
  have b: "0 \<le> s" "s \<le> e" "e \<le> int (length (chars (doc r2)))"
    by (simp_all add: c)
  from feed_E_buffer [OF r2(1) q(1) a2(4) q(2,3) b2(1) b a2(5)] b2(2)
  have "\<exists>r3. feed r2 e_frame = Inr r3 \<and> \<not> prevent_save (doc r3)"
    by auto
  with k show "prevent_save (doc r2)
        \<and> (\<exists>r3. feed r2 e_frame = Inr r3 \<and> \<not> prevent_save (doc r3))"
    by simp
  qed
  from A B C show ?thesis by (intro conjI)
qed

lemma ex_feed_flagged:
  "feed (ex_flag (ex_parser BUFFER)) ex_R = Inr (ex_flag (ex_refresh BUFFER))"
  "stays_in_refresh (ex_flag (ex_refresh BUFFER)) ex_mid"
  "no_K_received (ex_flag (ex_refresh BUFFER)) ex_mid"
  "feed (ex_flag (ex_refresh BUFFER)) ex_mid = Inr (ex_flag ex_filled)"
  by code_simp+

lemma ex_frame_K: "frame 0x4B [] = Inr ex_K"
  by (simp add: frame_def CMD_LEN_def STX_def ETX_def ex_K_def)

text \<open>The theorem at the example parser with the flag set, refreshed with \<open>XYZ\<close>.\<close>

theorem prevent_save_semantics_witness:
  "state (ex_refresh BUFFER) = REFRESH \<and> \<not> in_cmd (ex_refresh BUFFER)
   \<and> active_target (ex_refresh BUFFER) = Some new_Document \<and> frame 0x4B [] = Inr ex_K
   \<and> (\<exists>p'. feed (ex_refresh BUFFER) ex_K = Inr p'
         \<and> active_target p' = Some (new_Document\<lparr>prevent_save := True\<rparr>)
         \<and> prevent_save (doc p'))
   \<and> state (ex_flag (ex_parser BUFFER)) = NORMAL
   \<and> refresh_mode (ex_flag (ex_parser BUFFER)) = BUFFER
   \<and> \<not> in_cmd (ex_flag (ex_parser BUFFER))
   \<and> prevent_save (doc (ex_flag (ex_parser BUFFER)))
   \<and> frame 0x52 ex_payload = Inr ex_R
   \<and> feed (ex_flag (ex_parser BUFFER)) ex_R = Inr (ex_flag (ex_refresh BUFFER))
   \<and> stays_in_refresh (ex_flag (ex_refresh BUFFER)) ex_mid
   \<and> no_K_received (ex_flag (ex_refresh BUFFER)) ex_mid
   \<and> feed (ex_flag (ex_refresh BUFFER)) ex_mid = Inr (ex_flag ex_filled)
   \<and> \<not> in_cmd (ex_flag ex_filled) \<and> frame 0x45 [] = Inr ex_E
   \<and> prevent_save (doc (ex_flag ex_filled))
   \<and> (\<exists>r3. feed (ex_flag ex_filled) ex_E = Inr r3 \<and> \<not> prevent_save (doc r3)
         \<and> prevent_save (doc r3)
             = prevent_save (new_Document\<lparr>chars := [88, 89, 90], insertion := 3\<rparr>))"
proof -
  have h1: "state (ex_refresh BUFFER) = REFRESH \<and> \<not> in_cmd (ex_refresh BUFFER)
      \<and> active_target (ex_refresh BUFFER) = Some new_Document"
    by (simp add: ex_refresh_def ex_parser_def init_def active_target_def)
  have h2: "state (ex_flag (ex_parser BUFFER)) = NORMAL
      \<and> refresh_mode (ex_flag (ex_parser BUFFER)) = BUFFER
      \<and> \<not> in_cmd (ex_flag (ex_parser BUFFER))
      \<and> prevent_save (doc (ex_flag (ex_parser BUFFER)))"
    by (simp add: ex_flag_def ex_parser_def init_def)
  have h3: "\<not> in_cmd (ex_flag ex_filled)"
    "state (ex_flag ex_filled) = REFRESH \<and> refresh_mode (ex_flag ex_filled) = BUFFER
      \<and> refresh_buffer (ex_flag ex_filled)
          = Some (new_Document\<lparr>chars := [88, 89, 90], insertion := 3\<rparr>)"
    by (simp_all add: ex_flag_def ex_filled_def ex_refresh_def ex_parser_def init_def)
  note T = prevent_save_semantics [of "ex_refresh BUFFER" new_Document ex_K
      "ex_flag ex_filled" "new_Document\<lparr>chars := [88, 89, 90], insertion := 3\<rparr>" ex_E _
      "ex_flag (ex_parser BUFFER)" ex_payload ex_R "ex_flag (ex_refresh BUFFER)" ex_mid
      "ex_flag ex_filled"]
  from T [THEN conjunct1] h1 ex_frame_K
  have c1: "\<exists>p'. feed (ex_refresh BUFFER) ex_K = Inr p'
         \<and> active_target p' = Some (new_Document\<lparr>prevent_save := True\<rparr>)
         \<and> prevent_save (doc p')"
    by auto
  from T [THEN conjunct2, THEN conjunct2] h2 h3 ex_frame_R ex_frame_E ex_feed_flagged
  have c3: "prevent_save (doc (ex_flag ex_filled))
     \<and> (\<exists>r3. feed (ex_flag ex_filled) ex_E = Inr r3 \<and> \<not> prevent_save (doc r3))"
    by blast
  then obtain r3 where r3: "feed (ex_flag ex_filled) ex_E = Inr r3" "\<not> prevent_save (doc r3)"
    by blast
  from T [THEN conjunct2, THEN conjunct1, of r3] h3 ex_frame_E r3(1)
  have "prevent_save (doc r3)
      = prevent_save (new_Document\<lparr>chars := [88, 89, 90], insertion := 3\<rparr>)"
    by blast
  with r3 have c2: "\<exists>r3. feed (ex_flag ex_filled) ex_E = Inr r3 \<and> \<not> prevent_save (doc r3)
         \<and> prevent_save (doc r3)
             = prevent_save (new_Document\<lparr>chars := [88, 89, 90], insertion := 3\<rparr>)"
    by blast
  show ?thesis
    using h1 h2 h3 c1 c2 c3 ex_frame_K ex_frame_R ex_frame_E ex_feed_flagged by simp
qed

section \<open>Chunking\<close>

text \<open>
  C4. Feeding \<open>a\<close> and then \<open>b\<close> is feeding \<open>a @ b\<close>: \<^verbatim>\<open>feed(a @ b)\<close> raises where
  \<^verbatim>\<open>feed(a)\<close> does, with the same exception and the same parser left behind, and otherwise
  returns what \<^verbatim>\<open>feed(b)\<close> returns on the parser that \<^verbatim>\<open>feed(a)\<close> left. The parser record
  holds the documents, the refresh state and the frame-parse state, so all of them agree.
\<close>

theorem feed_chunking:
  "feed p (a @ b) = (case feed p a of Inl e \<Rightarrow> Inl e | Inr p' \<Rightarrow> feed p' b)"
  by (rule feed_append)

section \<open>ETX outside a frame\<close>

text \<open>
  C8 as stated fails: a new parser has no frame open, and feeding it the byte 0x03 inserts
  the character U+0003 into the document, whose text was empty.
\<close>

theorem etx_outside_frame_counterexample:
  "\<not> in_cmd (init BUFFER)
   \<and> feed (init BUFFER) [ETX]
       = Inr ((init BUFFER)\<lparr>doc := new_Document\<lparr>chars := [3], insertion := 1\<rparr>\<rparr>)
   \<and> document_text ((init BUFFER)\<lparr>doc := new_Document\<lparr>chars := [3], insertion := 1\<rparr>\<rparr>) = [3]
   \<and> document_text (init BUFFER) = []"
  by code_simp

lemma insert_text_bytes_active:
  assumes "active_target p = Some d"
  shows "insert_text_bytes p bs =
     Inr (if state p = REFRESH \<and> refresh_mode p = BUFFER then
            p\<lparr>refresh_buffer :=
                Some (insert_text d (case decode_strict bs of Some s \<Rightarrow> s
                                     | None \<Rightarrow> decode_replace bs))\<rparr>
          else
            p\<lparr>doc := insert_text d (case decode_strict bs of Some s \<Rightarrow> s
                                       | None \<Rightarrow> decode_replace bs)\<rparr>)"
proof (cases "state p")
  case NORMAL
  with assms show ?thesis by (simp add: insert_text_bytes_def active_target_def Let_def)
next
  case REFRESH
  with assms show ?thesis
    by (cases "refresh_mode p") (simp_all add: insert_text_bytes_def active_target_def Let_def)
qed

text \<open>
  C8, amended. With no frame open, STX is structural: it opens a frame and changes neither
  document. ETX is a text byte like any other byte but STX: the character U+0003 is
  inserted at the cursor of the active edit target, and the cursor moves past it.
\<close>

theorem stx_structural_etx_text:
  "(\<not> in_cmd p \<longrightarrow>
      (\<exists>p'. feed_byte p STX = Inr p' \<and> in_cmd p' \<and> doc p' = doc p
            \<and> refresh_buffer p' = refresh_buffer p))
   \<and> (\<not> in_cmd p \<and> active_target p = Some d \<and> doc_ok d \<longrightarrow>
      (\<exists>p'. feed_byte p ETX = Inr p'
            \<and> active_target p'
                = Some (d\<lparr>chars := take (nat (insertion d)) (chars d) @ [3]
                                      @ drop (nat (insertion d)) (chars d),
                          insertion := insertion d + 1\<rparr>)))"
proof -
  have A: "\<not> in_cmd p \<longrightarrow>
      (\<exists>p'. feed_byte p STX = Inr p' \<and> in_cmd p' \<and> doc p' = doc p
            \<and> refresh_buffer p' = refresh_buffer p)"
    by (simp add: feed_byte_def enter_frame_def)
  have B: "\<not> in_cmd p \<and> active_target p = Some d \<and> doc_ok d \<longrightarrow>
      (\<exists>p'. feed_byte p ETX = Inr p'
            \<and> active_target p'
                = Some (d\<lparr>chars := take (nat (insertion d)) (chars d) @ [3]
                                      @ drop (nat (insertion d)) (chars d),
                          insertion := insertion d + 1\<rparr>))"
  proof
    assume a: "\<not> in_cmd p \<and> active_target p = Some d \<and> doc_ok d"
    have s: "(case decode_strict [ETX] of Some s \<Rightarrow> s | None \<Rightarrow> decode_replace [ETX]) = [3]"
      by (simp add: decode_strict_def ETX_def)
    from a have i: "insert_text d [3] =
        d\<lparr>chars := take (nat (insertion d)) (chars d) @ [3] @ drop (nat (insertion d)) (chars d),
          insertion := insertion d + 1\<rparr>"
      by (simp add: insert_text_in_range)
    from a have f: "feed_byte p ETX = insert_text_bytes p [ETX]"
      by (simp add: feed_byte_def STX_def ETX_def)
    from a have t: "active_target p = Some d" by simp
    show "\<exists>p'. feed_byte p ETX = Inr p'
            \<and> active_target p'
                = Some (d\<lparr>chars := take (nat (insertion d)) (chars d) @ [3]
                                      @ drop (nat (insertion d)) (chars d),
                          insertion := insertion d + 1\<rparr>)"
      unfolding f i [symmetric]
      using insert_text_bytes_active [OF t, of "[ETX]"]
      by (auto simp add: s active_target_def)
  qed
  from A B show ?thesis by (intro conjI)
qed

text \<open>The theorem at the example parser: ETX is appended to \<open>AABBCC\<close>.\<close>

theorem stx_structural_etx_text_witness:
  "\<not> in_cmd (ex_parser BUFFER) \<and> active_target (ex_parser BUFFER) = Some ex_doc
   \<and> doc_ok ex_doc
   \<and> (\<exists>p'. feed_byte (ex_parser BUFFER) STX = Inr p' \<and> in_cmd p'
         \<and> doc p' = doc (ex_parser BUFFER))
   \<and> (\<exists>p'. feed_byte (ex_parser BUFFER) ETX = Inr p'
         \<and> active_target p'
             = Some (ex_doc\<lparr>chars := [65, 65, 66, 66, 67, 67, 3], insertion := 7\<rparr>))"
proof -
  have h: "\<not> in_cmd (ex_parser BUFFER)" "active_target (ex_parser BUFFER) = Some ex_doc"
    "doc_ok ex_doc"
    by (simp_all add: ex_parser_def init_def active_target_def doc_ok_def ex_doc_def)
  note T = stx_structural_etx_text [of "ex_parser BUFFER" ex_doc]
  from T [THEN conjunct1] h(1)
  have c1: "\<exists>p'. feed_byte (ex_parser BUFFER) STX = Inr p' \<and> in_cmd p'
         \<and> doc p' = doc (ex_parser BUFFER)"
    by blast
  from T [THEN conjunct2] h
  have c2: "\<exists>p'. feed_byte (ex_parser BUFFER) ETX = Inr p'
         \<and> active_target p'
             = Some (ex_doc\<lparr>chars := [65, 65, 66, 66, 67, 67, 3], insertion := 7\<rparr>)"
    by (simp add: ex_doc_def)
  show ?thesis using h c1 c2 by simp
qed

end
